theory Spec2Isabelle
  imports Complex_Main "HOL-Library.Multiset" "HOL-Library.Sublist"
begin

section \<open>JavaScript values used by the stores\<close>

text \<open>
  The two model classes (\<open>Event\<close> and \<open>User\<close>) keep their whole collection in an array,
  assign numeric ids from a counter and rewrite a JSON file after every mutation. The
  embedding below follows the source method by method.

  \<^item> Numbers that the code counts with (ids, the registration counter, the id counter)
    are \<^typ>\<open>int\<close>: JavaScript numbers are exact on integers of magnitude below \<open>2^53\<close>,
    and the model stands for that range.
  \<^item> Text is \<^typ>\<open>string\<close>, read as ASCII. A field that the data model names as text
    holds text: an event whose title is a number is outside the model.
  \<^item> Values that arrive untyped from a caller (an id taken from a URL or from a token)
    are \<open>jsval\<close>; a numeric field that can hold \<open>NaN\<close>, an infinity or (after a reload)
    \<open>null\<close> is a \<open>jsnum\<close>.
  \<^item> Arrays are lists, that is, values: no two records of a store share one array
    object. This is so for every record that \<open>JSON.parse\<close> or the routes build.
  \<^item> The calls of one store run one after the other; the interleaving of two pending
    calls is not modelled.
\<close>

datatype jsval = JUndefined | JNull | JNumber int | JString string

datatype 'a jsnum = Num 'a | NaN | PosInfinity | NegInfinity | NullNum

subsection \<open>\<open>parseInt\<close> and \<open>parseFloat\<close>\<close>

definition isWhiteSpace :: "char \<Rightarrow> bool" where
  "isWhiteSpace c = (of_char c \<in> {9, 10, 11, 12, 13, 32 :: nat})"

definition digitOf :: "char \<Rightarrow> nat option" where
  "digitOf c =
     (let n = (of_char c :: nat) in
      if 48 \<le> n \<and> n \<le> 57 then Some (n - 48)
      else if 97 \<le> n \<and> n \<le> 122 then Some (n - 87)
      else if 65 \<le> n \<and> n \<le> 90 then Some (n - 55)
      else None)"

definition isRadixDigit :: "nat \<Rightarrow> char \<Rightarrow> bool" where
  "isRadixDigit R c = (case digitOf c of None \<Rightarrow> False | Some d \<Rightarrow> d < R)"

definition digitsValue :: "nat \<Rightarrow> string \<Rightarrow> int" where
  "digitsValue R Z =
     foldl (\<lambda>acc c. acc * int R + (case digitOf c of None \<Rightarrow> 0 | Some d \<Rightarrow> int d)) 0 Z"

text \<open>
  \<open>stripSign\<close> reads the optional sign of a numeric string: the sign as \<open>1\<close> or \<open>-1\<close> and the
  rest of the string.
\<close>

fun stripSign :: "string \<Rightarrow> int \<times> string" where
  "stripSign [] = (1, [])"
| "stripSign (c # cs) =
     (if c = CHR ''-'' then (- 1, cs) else if c = CHR ''+'' then (1, cs) else (1, c # cs))"

text \<open>
  \<open>parseInt(string)\<close> with no radix: leading white space is skipped, a sign is read, a
  \<open>0x\<close> or \<open>0X\<close> prefix selects radix 16, and the longest prefix of digits is the result;
  with no digit the result is \<open>NaN\<close>.
\<close>

definition parseIntString :: "string \<Rightarrow> int jsnum" where
  "parseIntString s =
     (let S = dropWhile isWhiteSpace s;
          (sign, S1) = stripSign S;
          hex = (take 2 S1 = ''0x'' \<or> take 2 S1 = ''0X'');
          R = (if hex then 16 else 10);
          S2 = (if hex then drop 2 S1 else S1);
          Z = takeWhile (isRadixDigit R) S2
      in if Z = [] then NaN else Num (sign * digitsValue R Z))"

fun parseInt :: "jsval \<Rightarrow> int jsnum" where
  "parseInt (JString s) = parseIntString s"
| "parseInt (JNumber n) = Num n"
| "parseInt JUndefined = NaN"
| "parseInt JNull = NaN"

text \<open>
  \<open>parseFloat(string)\<close>: white space, a sign, then \<open>Infinity\<close> or the longest prefix that is a
  decimal literal (digits, an optional fraction, an optional exponent). A value too large
  for a double is an infinity: the bound \<open>doubleOverflow\<close> is \<open>2^1024 - 2^970\<close>, halfway
  between the largest double and \<open>2^1024\<close>, written out in decimal. A smaller value is kept
  as an exact rational (its rounding to the nearest double is not modelled).
\<close>

definition doubleOverflow :: rat where
  "doubleOverflow = 179769313486231580793728971405303415079934132710037826936173778980444968292764750946649017977587207096330286416692887910946555547851940402630657488671505820681908902000708383676273854845817711531764475730270069855571366959622842914819860834936475292719074168444365510704342711559699508093042880177904174497792"

definition numberOf :: "rat \<Rightarrow> rat jsnum" where
  "numberOf v =
     (if v \<ge> doubleOverflow then PosInfinity
      else if v \<le> - doubleOverflow then NegInfinity
      else Num v)"

definition isDecimalDigit :: "char \<Rightarrow> bool" where
  "isDecimalDigit c = isRadixDigit 10 c"

definition scale10 :: "rat \<Rightarrow> int \<Rightarrow> rat" where
  "scale10 m e = (if 0 \<le> e then m * 10 ^ nat e else m / 10 ^ nat (- e))"

definition exponentPart :: "string \<Rightarrow> int" where
  "exponentPart r =
     (case r of
        [] \<Rightarrow> 0
      | c # cs \<Rightarrow>
          if c = CHR ''e'' \<or> c = CHR ''E'' then
            (let (esign, ds) = stripSign cs; ed = takeWhile isDecimalDigit ds
             in if ed = [] then 0 else esign * digitsValue 10 ed)
          else 0)"

definition parseFloatString :: "string \<Rightarrow> rat jsnum" where
  "parseFloatString s =
     (let S = dropWhile isWhiteSpace s;
          (sign, S1) = stripSign S
      in if take 8 S1 = ''Infinity'' then (if sign = 1 then PosInfinity else NegInfinity)
         else
           (let ip = takeWhile isDecimalDigit S1;
                r1 = dropWhile isDecimalDigit S1;
                fp = (case r1 of [] \<Rightarrow> [] | c # cs \<Rightarrow>
                        if c = CHR ''.'' then takeWhile isDecimalDigit cs else []);
                r2 = (case r1 of [] \<Rightarrow> [] | c # cs \<Rightarrow>
                        if c = CHR ''.'' then dropWhile isDecimalDigit cs else r1)
            in if ip = [] \<and> fp = [] then NaN
               else numberOf (scale10 (of_int (sign * digitsValue 10 (ip @ fp)))
                               (exponentPart r2 - int (length fp)))))"

fun parseFloat :: "jsval \<Rightarrow> rat jsnum" where
  "parseFloat (JString s) = parseFloatString s"
| "parseFloat (JNumber n) = Num (of_int n)"
| "parseFloat JUndefined = NaN"
| "parseFloat JNull = NaN"


subsection \<open>Comparison, arrays and strings\<close>

text \<open>
  \<open>n >= c\<close> for a number \<open>n\<close> and a numeric field \<open>c\<close>: every comparison with \<open>NaN\<close> is false
  and \<open>null\<close> converts to \<open>0\<close>.
\<close>

fun geNum :: "int \<Rightarrow> int jsnum \<Rightarrow> bool" where
  "geNum n (Num c) = (n \<ge> c)"
| "geNum n NaN = False"
| "geNum n PosInfinity = False"
| "geNum n NegInfinity = True"
| "geNum n NullNum = (n \<ge> 0)"

text \<open>
  \<open>Array.prototype.findIndex\<close>: the index of the first element that satisfies the
  predicate, or \<open>-1\<close>.
\<close>

fun findIndex :: "('a \<Rightarrow> bool) \<Rightarrow> 'a list \<Rightarrow> int" where
  "findIndex P [] = - 1"
| "findIndex P (x # xs) =
     (if P x then 0 else (let i = findIndex P xs in if i = - 1 then - 1 else i + 1))"

text \<open>\<open>Array.prototype.splice(i, 1)\<close>: the array without the element at index \<open>i\<close>.\<close>

definition splice1 :: "nat \<Rightarrow> 'a list \<Rightarrow> 'a list" where
  "splice1 i xs = take i xs @ drop (Suc i) xs"

text \<open>\<open>String.prototype.toLowerCase\<close> on ASCII text.\<close>

definition lowerChar :: "char \<Rightarrow> char" where
  "lowerChar c =
     (let n = (of_char c :: nat) in if 65 \<le> n \<and> n \<le> 90 then char_of (n + 32) else c)"

definition toLowerCase :: "string \<Rightarrow> string" where
  "toLowerCase s = map lowerChar s"

text \<open>
  \<open>String.prototype.includes\<close>: \<open>stringIncludes s t\<close> is \<open>s.includes(t)\<close>, a scan of \<open>s\<close> for a
  position where \<open>t\<close> starts.
\<close>

fun startsWith :: "string \<Rightarrow> string \<Rightarrow> bool" where
  "startsWith s [] = True"
| "startsWith [] (c # t) = False"
| "startsWith (d # s) (c # t) = (d = c \<and> startsWith s t)"

fun stringIncludes :: "string \<Rightarrow> string \<Rightarrow> bool" where
  "stringIncludes [] t = (t = [])"
| "stringIncludes (d # s) t = (startsWith (d # s) t \<or> stringIncludes s t)"

text \<open>
  \<open>Array.prototype.sort(compare)\<close>. The comparator returns a number or \<open>NaN\<close> (\<open>None\<close>);
  the language reads \<open>NaN\<close> as \<open>+0\<close>. The sort is stable, so for a comparator that is a
  consistent ordering its result is determined; it is modelled as the stable insertion
  sort, where an element moves behind its right neighbours only while the comparator
  puts it strictly after them. For a comparator that is not a consistent ordering the
  language leaves the order to the engine. The engines in use (merge sort, and the sort
  of V8 that first looks for runs) compare neighbours first, as the insertion sort does,
  and like it leave an array alone whose neighbours all compare as equal.
\<close>

definition sortCompare :: "('a \<Rightarrow> 'a \<Rightarrow> int option) \<Rightarrow> 'a \<Rightarrow> 'a \<Rightarrow> int" where
  "sortCompare comparefn x y = (case comparefn x y of None \<Rightarrow> 0 | Some v \<Rightarrow> v)"

fun insertSorted :: "('a \<Rightarrow> 'a \<Rightarrow> int option) \<Rightarrow> 'a \<Rightarrow> 'a list \<Rightarrow> 'a list" where
  "insertSorted comparefn x [] = [x]"
| "insertSorted comparefn x (y # ys) =
     (if sortCompare comparefn x y > 0 then y # insertSorted comparefn x ys else x # y # ys)"

definition arraySort :: "('a \<Rightarrow> 'a \<Rightarrow> int option) \<Rightarrow> 'a list \<Rightarrow> 'a list" where
  "arraySort comparefn xs = foldr (insertSorted comparefn) xs []"

section \<open>The event store\<close>

subsection \<open>Data\<close>

datatype error = Error string | ENOENT | IOFailure | SyntaxError | RangeError

text \<open>
  The failures of the stores by kind: a missing record is \<open>NotFound\<close>; a full event, a
  second registration and an unregistration of a user who is not registered are
  \<open>Conflict\<close>.
\<close>

definition isNotFound :: "error \<Rightarrow> bool" where
  "isNotFound e = (e = Error ''Event not found'' \<or> e = Error ''User not found'')"

definition isConflict :: "error \<Rightarrow> bool" where
  "isConflict e =
     (e = Error ''Event is full'' \<or> e = Error ''User already registered for this event''
      \<or> e = Error ''User not registered for this event'')"

text \<open>
  The backing file: absent, unreadable, not JSON, or holding a collection. The content is
  kept as the value \<open>JSON.parse\<close> returns for the text that was written.
\<close>

datatype 'a backing_file = Absent | Unreadable | Malformed | Content 'a

fun readJSON :: "'a backing_file \<Rightarrow> error + 'a" where
  "readJSON Absent = Inl ENOENT"
| "readJSON Unreadable = Inl IOFailure"
| "readJSON Malformed = Inl SyntaxError"
| "readJSON (Content d) = Inr d"

text \<open>
  The spread of an array into the arguments of a call, as in \<open>Math.max(...ids)\<close>: the
  engine takes a bounded number of arguments, \<open>maxArgs\<close>, and throws a \<open>RangeError\<close> for a
  longer array. The bound depends on the engine and on the size of its stack (it is of
  the order of \<open>10^5\<close>), so it is a parameter.
\<close>

definition spread :: "int \<Rightarrow> 'a list \<Rightarrow> error + 'a list" where
  "spread maxArgs xs = (if int (length xs) > maxArgs then Inl RangeError else Inr xs)"

record event =
  event_id :: int
  title :: string
  category :: string
  date :: string
  time :: string
  location :: string
  description :: string
  capacity :: "int jsnum"
  price :: "rat jsnum"
  organizerId :: jsval
  organizerName :: string
  registrations :: int
  registeredUsers :: "jsval list"
  createdAt :: string
  updatedAt :: string

text \<open>The object handed to \<open>create\<close>: \<open>registrations\<close> and \<open>registeredUsers\<close> may be absent.\<close>

record eventData =
  d_title :: string
  d_category :: string
  d_date :: string
  d_time :: string
  d_location :: string
  d_description :: string
  d_capacity :: jsval
  d_price :: jsval
  d_organizerId :: jsval
  d_organizerName :: string
  d_registrations :: "int option"
  d_registeredUsers :: "jsval list option"

text \<open>The object handed to \<open>update\<close>: any subset of the fields of an event.\<close>

record updateData =
  p_id :: "int option"
  p_title :: "string option"
  p_category :: "string option"
  p_date :: "string option"
  p_time :: "string option"
  p_location :: "string option"
  p_description :: "string option"
  p_capacity :: "int jsnum option"
  p_price :: "rat jsnum option"
  p_organizerId :: "jsval option"
  p_organizerName :: "string option"
  p_registrations :: "int option"
  p_registeredUsers :: "jsval list option"
  p_createdAt :: "string option"

definition noUpdate :: updateData where
  "noUpdate = \<lparr>p_id = None, p_title = None, p_category = None, p_date = None, p_time = None,
     p_location = None, p_description = None, p_capacity = None, p_price = None,
     p_organizerId = None, p_organizerName = None, p_registrations = None,
     p_registeredUsers = None, p_createdAt = None\<rparr>"

record event_store =
  events :: "event list"
  nextId :: int
  dataFile :: "event list backing_file"
  writable :: bool


subsection \<open>Persistence\<close>

text \<open>
  \<open>JSON.stringify\<close> followed by \<open>JSON.parse\<close> returns the value it was given except where
  JSON has no notation for it: \<open>NaN\<close> and the infinities are written as \<open>null\<close>, and so is
  \<open>undefined\<close> inside an array. (A property whose value is \<open>undefined\<close> is left out and
  reads as \<open>undefined\<close> again.)
\<close>

fun jsonNum :: "'a jsnum \<Rightarrow> 'a jsnum" where
  "jsonNum (Num x) = Num x"
| "jsonNum NaN = NullNum"
| "jsonNum PosInfinity = NullNum"
| "jsonNum NegInfinity = NullNum"
| "jsonNum NullNum = NullNum"

fun jsonElem :: "jsval \<Rightarrow> jsval" where
  "jsonElem JUndefined = JNull"
| "jsonElem v = v"

definition jsonEvent :: "event \<Rightarrow> event" where
  "jsonEvent e = e\<lparr>capacity := jsonNum (capacity e), price := jsonNum (price e),
     registeredUsers := map jsonElem (registeredUsers e)\<rparr>"

text \<open>
  \<open>saveEvents\<close> writes the whole collection; a failing \<open>mkdir\<close> or \<open>writeFile\<close> (the store
  is not \<open>writable\<close>) is rethrown.
\<close>

definition saveEvents :: "event_store \<Rightarrow> (error + unit) \<times> event_store" where
  "saveEvents s =
     (if writable s then (Inr (), s\<lparr>dataFile := Content (map jsonEvent (events s))\<rparr>)
      else (Inl IOFailure, s))"

text \<open>
  \<open>loadEvents\<close> replaces the collection by the content of the file and, when the
  collection is not empty, sets \<open>nextId\<close> to the highest id plus one. Whatever the body
  throws goes to the \<open>catch\<close>: a missing file gives the empty collection, any other
  error is rethrown. The \<open>RangeError\<close> of \<open>Math.max(...ids)\<close> is thrown after the collection
  has been assigned.
\<close>

definition loadEvents :: "int \<Rightarrow> event_store \<Rightarrow> (error + unit) \<times> event_store" where
  "loadEvents maxArgs s =
     (case readJSON (dataFile s) of
        Inl err \<Rightarrow>
          if err = ENOENT then (Inr (), s\<lparr>events := []\<rparr>) else (Inl err, s)
      | Inr data \<Rightarrow>
          (let s1 = s\<lparr>events := data\<rparr> in
           if length (events s1) > 0 then
             (case spread maxArgs (map event_id (events s1)) of
                Inl err \<Rightarrow>
                  if err = ENOENT then (Inr (), s1\<lparr>events := []\<rparr>) else (Inl err, s1)
              | Inr ids \<Rightarrow> (Inr (), s1\<lparr>nextId := Max (set ids) + 1\<rparr>))
           else (Inr (), s1)))"

text \<open>\<open>init\<close> catches whatever \<open>loadEvents\<close> rethrows and empties the collection.\<close>

definition init :: "int \<Rightarrow> event_store \<Rightarrow> event_store" where
  "init maxArgs s =
     (case loadEvents maxArgs s of (Inr u, s1) \<Rightarrow> s1 | (Inl err, s1) \<Rightarrow> s1\<lparr>events := []\<rparr>)"

text \<open>
  The constructor, run once when the process starts: an empty collection, \<open>nextId = 1\<close>,
  then \<open>init\<close>. The file and the state of the disk are what the process finds.
\<close>

definition newEventStore :: "int \<Rightarrow> event list backing_file \<Rightarrow> bool \<Rightarrow> event_store" where
  "newEventStore maxArgs f w = init maxArgs \<lparr>events = [], nextId = 1, dataFile = f, writable = w\<rparr>"

subsection \<open>Operations\<close>

text \<open>
  Every operation takes the store and returns its result, or the error it throws,
  together with the store as the call leaves it: a mutation made before a throw stays.
  \<open>now\<close> is the text \<open>new Date().toISOString()\<close> gives during the call.
\<close>

definition Event_create ::
    "eventData \<Rightarrow> string \<Rightarrow> event_store \<Rightarrow> (error + event) \<times> event_store" where
  "Event_create eventData now s =
     (let newEvent = \<lparr>
            event_id = nextId s,
            title = d_title eventData,
            category = d_category eventData,
            date = d_date eventData,
            time = d_time eventData,
            location = d_location eventData,
            description = d_description eventData,
            capacity = parseInt (d_capacity eventData),
            price = parseFloat (d_price eventData),
            organizerId = d_organizerId eventData,
            organizerName = d_organizerName eventData,
            registrations =
              (case d_registrations eventData of
                 None \<Rightarrow> 0 | Some r \<Rightarrow> if r = 0 then 0 else r),
            registeredUsers =
              (case d_registeredUsers eventData of None \<Rightarrow> [] | Some us \<Rightarrow> us),
            createdAt = now,
            updatedAt = now\<rparr>;
          s1 = s\<lparr>nextId := nextId s + 1\<rparr>;
          s2 = s1\<lparr>events := events s1 @ [newEvent]\<rparr>
      in case saveEvents s2 of
           (Inl err, s3) \<Rightarrow> (Inl err, s3)
         | (Inr u, s3) \<Rightarrow> (Inr newEvent, s3))"

definition hasId :: "jsval \<Rightarrow> event \<Rightarrow> bool" where
  "hasId i event = (Num (event_id event) = parseInt i)"

definition Event_findById :: "event_store \<Rightarrow> jsval \<Rightarrow> event option" where
  "Event_findById s i = find (hasId i) (events s)"

definition override :: "'a \<Rightarrow> 'a option \<Rightarrow> 'a" where
  "override old new = (case new of None \<Rightarrow> old | Some v \<Rightarrow> v)"

text \<open>The object \<open>{...event, ...updateData, updatedAt: now}\<close>.\<close>

definition mergeEvent :: "event \<Rightarrow> updateData \<Rightarrow> string \<Rightarrow> event" where
  "mergeEvent e u now = \<lparr>
     event_id = override (event_id e) (p_id u),
     title = override (title e) (p_title u),
     category = override (category e) (p_category u),
     date = override (date e) (p_date u),
     time = override (time e) (p_time u),
     location = override (location e) (p_location u),
     description = override (description e) (p_description u),
     capacity = override (capacity e) (p_capacity u),
     price = override (price e) (p_price u),
     organizerId = override (organizerId e) (p_organizerId u),
     organizerName = override (organizerName e) (p_organizerName u),
     registrations = override (registrations e) (p_registrations u),
     registeredUsers = override (registeredUsers e) (p_registeredUsers u),
     createdAt = override (createdAt e) (p_createdAt u),
     updatedAt = now\<rparr>"

definition Event_update ::
    "jsval \<Rightarrow> updateData \<Rightarrow> string \<Rightarrow> event_store \<Rightarrow> (error + event) \<times> event_store" where
  "Event_update i u now s =
     (let eventIndex = findIndex (hasId i) (events s) in
      if eventIndex = - 1 then (Inl (Error ''Event not found''), s)
      else
        (let k = nat eventIndex;
             s1 = s\<lparr>events := (events s)[k := mergeEvent (events s ! k) u now]\<rparr>
         in case saveEvents s1 of
              (Inl err, s2) \<Rightarrow> (Inl err, s2)
            | (Inr un, s2) \<Rightarrow> (Inr (events s2 ! k), s2)))"

definition Event_delete :: "jsval \<Rightarrow> event_store \<Rightarrow> (error + bool) \<times> event_store" where
  "Event_delete i s =
     (let eventIndex = findIndex (hasId i) (events s) in
      if eventIndex = - 1 then (Inl (Error ''Event not found''), s)
      else
        (let s1 = s\<lparr>events := splice1 (nat eventIndex) (events s)\<rparr>
         in case saveEvents s1 of
              (Inl err, s2) \<Rightarrow> (Inl err, s2)
            | (Inr un, s2) \<Rightarrow> (Inr True, s2)))"

text \<open>
  \<open>registerUser\<close> and \<open>unregisterUser\<close> change the object that \<open>findById\<close> returned, which
  is the element of the array at the index of the first event with that id, and then call
  \<open>update\<close> with the two fields they changed.
\<close>

definition registerUser ::
    "jsval \<Rightarrow> jsval \<Rightarrow> string \<Rightarrow> event_store \<Rightarrow> (error + bool) \<times> event_store" where
  "registerUser eventId userId now s =
     (case Event_findById s eventId of
        None \<Rightarrow> (Inl (Error ''Event not found''), s)
      | Some event \<Rightarrow>
          if geNum (registrations event) (capacity event) then
            (Inl (Error ''Event is full''), s)
          else if userId \<in> set (registeredUsers event) then
            (Inl (Error ''User already registered for this event''), s)
          else
            (let event1 = event\<lparr>registeredUsers := registeredUsers event @ [userId]\<rparr>;
                 event2 = event1\<lparr>registrations := registrations event1 + 1\<rparr>;
                 s1 = s\<lparr>events :=
                        (events s)[nat (findIndex (hasId eventId) (events s)) := event2]\<rparr>
             in case Event_update eventId
                       (noUpdate\<lparr>p_registeredUsers := Some (registeredUsers event2),
                                 p_registrations := Some (registrations event2)\<rparr>) now s1 of
                  (Inl err, s2) \<Rightarrow> (Inl err, s2)
                | (Inr ev, s2) \<Rightarrow> (Inr True, s2)))"

definition unregisterUser ::
    "jsval \<Rightarrow> jsval \<Rightarrow> string \<Rightarrow> event_store \<Rightarrow> (error + bool) \<times> event_store" where
  "unregisterUser eventId userId now s =
     (case Event_findById s eventId of
        None \<Rightarrow> (Inl (Error ''Event not found''), s)
      | Some event \<Rightarrow>
          if userId \<notin> set (registeredUsers event) then
            (Inl (Error ''User not registered for this event''), s)
          else
            (let event1 = event\<lparr>registeredUsers :=
                             filter (\<lambda>i. i \<noteq> userId) (registeredUsers event)\<rparr>;
                 event2 = event1\<lparr>registrations := max 0 (registrations event1 - 1)\<rparr>;
                 s1 = s\<lparr>events :=
                        (events s)[nat (findIndex (hasId eventId) (events s)) := event2]\<rparr>
             in case Event_update eventId
                       (noUpdate\<lparr>p_registeredUsers := Some (registeredUsers event2),
                                 p_registrations := Some (registrations event2)\<rparr>) now s1 of
                  (Inl err, s2) \<Rightarrow> (Inl err, s2)
                | (Inr ev, s2) \<Rightarrow> (Inr True, s2)))"

subsection \<open>Queries\<close>

text \<open>
  \<open>new Date(text)\<close> is the host's: \<open>parseDate\<close> gives the time value in milliseconds, or
  \<open>None\<close> for an invalid date, and \<open>nowMs\<close> is the time value of \<open>new Date()\<close>. The start
  of an event is \<open>new Date(event.date + 'T' + event.time)\<close>.
\<close>

definition startOf :: "(string \<Rightarrow> int option) \<Rightarrow> 'a event_scheme \<Rightarrow> int option" where
  "startOf parseDate event = parseDate (date event @ ''T'' @ time event)"

text \<open>The difference of two dates is \<open>NaN\<close> when one of them is invalid.\<close>

fun dateDiff :: "int option \<Rightarrow> int option \<Rightarrow> int option" where
  "dateDiff (Some a) (Some b) = Some (a - b)"
| "dateDiff a b = None"

fun dateAfter :: "int option \<Rightarrow> int \<Rightarrow> bool" where
  "dateAfter (Some a) n = (a > n)"
| "dateAfter None n = False"

record event_view = event +
  isUpcoming :: bool

text \<open>The object \<open>{...event, isUpcoming: b}\<close>.\<close>

definition withUpcoming :: "event \<Rightarrow> bool \<Rightarrow> event_view" where
  "withUpcoming event b = event.extend event (event_view.fields b)"

text \<open>
  \<open>findAll\<close> sorts the array of the store in place and returns a copy of every event
  with the field \<open>isUpcoming\<close> added. (The source reads the clock once for each event;
  the model takes one reading, \<open>nowMs\<close>, for the call.)
\<close>

definition findAll ::
    "(string \<Rightarrow> int option) \<Rightarrow> int \<Rightarrow> event_store \<Rightarrow> event_view list \<times> event_store" where
  "findAll parseDate nowMs s =
     (let sorted = arraySort (\<lambda>a b. dateDiff (startOf parseDate a) (startOf parseDate b))
                     (events s);
          s1 = s\<lparr>events := sorted\<rparr>
      in (map (\<lambda>event. withUpcoming event (dateAfter (startOf parseDate event) nowMs))
            sorted, s1))"

definition search :: "string \<Rightarrow> event_store \<Rightarrow> event list" where
  "search query s =
     (let searchTerm = toLowerCase query in
      filter (\<lambda>event.
          stringIncludes (toLowerCase (title event)) searchTerm \<or>
          stringIncludes (toLowerCase (description event)) searchTerm \<or>
          stringIncludes (toLowerCase (location event)) searchTerm \<or>
          stringIncludes (toLowerCase (category event)) searchTerm)
        (events s))"


section \<open>The user store\<close>

record user =
  user_id :: int
  name :: string
  email :: string
  password :: string
  registeredEvents :: "jsval list"
  user_createdAt :: string
  user_updatedAt :: string

record userData =
  d_name :: string
  d_email :: string
  d_password :: string

record userUpdateData =
  q_id :: "int option"
  q_name :: "string option"
  q_email :: "string option"
  q_password :: "string option"
  q_registeredEvents :: "jsval list option"
  q_createdAt :: "string option"

definition noUserUpdate :: userUpdateData where
  "noUserUpdate = \<lparr>q_id = None, q_name = None, q_email = None, q_password = None,
     q_registeredEvents = None, q_createdAt = None\<rparr>"

text \<open>A user as the store returns it: every field but the password.\<close>

record userWithoutPassword =
  r_id :: int
  r_name :: string
  r_email :: string
  r_registeredEvents :: "jsval list"
  r_createdAt :: string
  r_updatedAt :: string

definition withoutPassword :: "user \<Rightarrow> userWithoutPassword" where
  "withoutPassword u = \<lparr>r_id = user_id u, r_name = name u, r_email = email u,
     r_registeredEvents = registeredEvents u, r_createdAt = user_createdAt u,
     r_updatedAt = user_updatedAt u\<rparr>"

record user_store =
  users :: "user list"
  u_nextId :: int
  u_dataFile :: "user list backing_file"
  u_writable :: bool

definition jsonUser :: "user \<Rightarrow> user" where
  "jsonUser u = u\<lparr>registeredEvents := map jsonElem (registeredEvents u)\<rparr>"

definition saveUsers :: "user_store \<Rightarrow> (error + unit) \<times> user_store" where
  "saveUsers s =
     (if u_writable s then (Inr (), s\<lparr>u_dataFile := Content (map jsonUser (users s))\<rparr>)
      else (Inl IOFailure, s))"

definition loadUsers :: "int \<Rightarrow> user_store \<Rightarrow> (error + unit) \<times> user_store" where
  "loadUsers maxArgs s =
     (case readJSON (u_dataFile s) of
        Inl err \<Rightarrow>
          if err = ENOENT then (Inr (), s\<lparr>users := []\<rparr>) else (Inl err, s)
      | Inr data \<Rightarrow>
          (let s1 = s\<lparr>users := data\<rparr> in
           if length (users s1) > 0 then
             (case spread maxArgs (map user_id (users s1)) of
                Inl err \<Rightarrow>
                  if err = ENOENT then (Inr (), s1\<lparr>users := []\<rparr>) else (Inl err, s1)
              | Inr ids \<Rightarrow> (Inr (), s1\<lparr>u_nextId := Max (set ids) + 1\<rparr>))
           else (Inr (), s1)))"

definition initUsers :: "int \<Rightarrow> user_store \<Rightarrow> user_store" where
  "initUsers maxArgs s =
     (case loadUsers maxArgs s of (Inr u, s1) \<Rightarrow> s1 | (Inl err, s1) \<Rightarrow> s1\<lparr>users := []\<rparr>)"

definition newUserStore :: "int \<Rightarrow> user list backing_file \<Rightarrow> bool \<Rightarrow> user_store" where
  "newUserStore maxArgs f w =
     initUsers maxArgs \<lparr>users = [], u_nextId = 1, u_dataFile = f, u_writable = w\<rparr>"

definition User_create ::
    "userData \<Rightarrow> string \<Rightarrow> user_store \<Rightarrow> (error + userWithoutPassword) \<times> user_store" where
  "User_create userData now s =
     (let newUser = \<lparr>
            user_id = u_nextId s,
            name = d_name userData,
            email = toLowerCase (d_email userData),
            password = d_password userData,
            registeredEvents = [],
            user_createdAt = now,
            user_updatedAt = now\<rparr>;
          s1 = s\<lparr>u_nextId := u_nextId s + 1\<rparr>;
          s2 = s1\<lparr>users := users s1 @ [newUser]\<rparr>
      in case saveUsers s2 of
           (Inl err, s3) \<Rightarrow> (Inl err, s3)
         | (Inr un, s3) \<Rightarrow> (Inr (withoutPassword newUser), s3))"

definition hasUserId :: "jsval \<Rightarrow> user \<Rightarrow> bool" where
  "hasUserId i u = (Num (user_id u) = parseInt i)"

definition User_findById :: "user_store \<Rightarrow> jsval \<Rightarrow> user option" where
  "User_findById s i = find (hasUserId i) (users s)"

definition mergeUser :: "user \<Rightarrow> userUpdateData \<Rightarrow> string \<Rightarrow> user" where
  "mergeUser u d now = \<lparr>
     user_id = override (user_id u) (q_id d),
     name = override (name u) (q_name d),
     email = override (email u) (q_email d),
     password = override (password u) (q_password d),
     registeredEvents = override (registeredEvents u) (q_registeredEvents d),
     user_createdAt = override (user_createdAt u) (q_createdAt d),
     user_updatedAt = now\<rparr>"

definition User_update ::
    "jsval \<Rightarrow> userUpdateData \<Rightarrow> string \<Rightarrow> user_store
      \<Rightarrow> (error + userWithoutPassword) \<times> user_store" where
  "User_update i d now s =
     (let userIndex = findIndex (hasUserId i) (users s) in
      if userIndex = - 1 then (Inl (Error ''User not found''), s)
      else
        (let k = nat userIndex;
             s1 = s\<lparr>users := (users s)[k := mergeUser (users s ! k) d now]\<rparr>
         in case saveUsers s1 of
              (Inl err, s2) \<Rightarrow> (Inl err, s2)
            | (Inr un, s2) \<Rightarrow> (Inr (withoutPassword (users s2 ! k)), s2)))"

text \<open>
  \<open>addRegisteredEvent\<close> pushes the id onto the list of the object \<open>findById\<close> returned
  and calls \<open>update\<close>; when the id is in the list already it does neither.
\<close>

definition addRegisteredEvent ::
    "jsval \<Rightarrow> jsval \<Rightarrow> string \<Rightarrow> user_store \<Rightarrow> (error + bool) \<times> user_store" where
  "addRegisteredEvent userId eventId now s =
     (case User_findById s userId of
        None \<Rightarrow> (Inl (Error ''User not found''), s)
      | Some u \<Rightarrow>
          if eventId \<notin> set (registeredEvents u) then
            (let u1 = u\<lparr>registeredEvents := registeredEvents u @ [eventId]\<rparr>;
                 s1 = s\<lparr>users :=
                        (users s)[nat (findIndex (hasUserId userId) (users s)) := u1]\<rparr>
             in case User_update userId
                       (noUserUpdate\<lparr>q_registeredEvents := Some (registeredEvents u1)\<rparr>)
                       now s1 of
                  (Inl err, s2) \<Rightarrow> (Inl err, s2)
                | (Inr r, s2) \<Rightarrow> (Inr True, s2))
          else (Inr True, s))"

text \<open>
  \<open>validatePassword\<close>: \<open>compare\<close> is \<open>bcrypt.compare\<close>, which answers or throws. The whole
  body stands in a \<open>try\<close> whose \<open>catch\<close> returns \<open>false\<close>.
\<close>

definition validatePassword ::
    "(string \<Rightarrow> string \<Rightarrow> error + bool) \<Rightarrow> user_store \<Rightarrow> jsval \<Rightarrow> string \<Rightarrow> error + bool" where
  "validatePassword compare s userId pw =
     (case (case User_findById s userId of
              None \<Rightarrow> Inr False
            | Some u \<Rightarrow> compare pw (password u)) of
        Inl err \<Rightarrow> Inr False
      | Inr b \<Rightarrow> Inr b)"

section \<open>Notions of the specification and sample data\<close>

text \<open>
  The invariant of an event: the counter \<open>registrations\<close> is the length of the list
  \<open>registeredUsers\<close>.
\<close>

definition consistent :: "event \<Rightarrow> bool" where
  "consistent e = (registrations e = int (length (registeredUsers e)))"

text \<open>Sample events and stores, used to run the operations on concrete inputs.\<close>

definition sampleEvent :: "int \<Rightarrow> int jsnum \<Rightarrow> int \<Rightarrow> jsval list \<Rightarrow> event" where
  "sampleEvent i c r us = \<lparr>event_id = i, title = ''Launch'', category = ''Tech'',
     date = ''2030-05-01'', time = ''10:00'', location = ''Hall'', description = ''Opening'',
     capacity = c, price = Num 0, organizerId = JNumber 1, organizerName = ''Ann'',
     registrations = r, registeredUsers = us,
     createdAt = ''2024-01-01T00:00:00.000Z'', updatedAt = ''2024-01-01T00:00:00.000Z''\<rparr>"

definition sampleStore :: "event list \<Rightarrow> bool \<Rightarrow> event_store" where
  "sampleStore es w =
     \<lparr>events = es, nextId = int (length es) + 1, dataFile = Absent, writable = w\<rparr>"

text \<open>One event with one seat, taken; one event with one seat, free; one with five seats.\<close>

definition fullStore :: event_store where
  "fullStore = sampleStore [sampleEvent 1 (Num 1) 1 [JNumber 7]] True"

definition openStore :: event_store where
  "openStore = sampleStore [sampleEvent 1 (Num 1) 0 []] True"

definition roomyStore :: event_store where
  "roomyStore = sampleStore [sampleEvent 1 (Num 5) 0 []] True"

text \<open>
  Two stores whose event broke the invariant through \<open>create\<close> or \<open>update\<close>: a counter of
  \<open>0\<close> beside one registered user, and a negative counter.
\<close>

definition driftStore :: event_store where
  "driftStore = sampleStore [sampleEvent 1 (Num 5) 0 [JNumber 7]] True"

definition negativeStore :: event_store where
  "negativeStore = sampleStore [sampleEvent 1 (Num 5) (- 2) []] True"

text \<open>
  A sequence of \<open>create\<close> calls on one store, with the id each call gives to the event
  (or user) it pushes, whether or not the write that follows succeeds.
\<close>

fun Event_creates :: "(eventData \<times> string) list \<Rightarrow> event_store \<Rightarrow> int list \<times> event_store" where
  "Event_creates [] s = ([], s)"
| "Event_creates ((d, now) # cs) s =
     (let s1 = snd (Event_create d now s);
          (ids, s2) = Event_creates cs s1
      in (event_id (last (events s1)) # ids, s2))"

fun User_creates :: "(userData \<times> string) list \<Rightarrow> user_store \<Rightarrow> int list \<times> user_store" where
  "User_creates [] s = ([], s)"
| "User_creates ((d, now) # cs) s =
     (let s1 = snd (User_create d now s);
          (ids, s2) = User_creates cs s1
      in (user_id (last (users s1)) # ids, s2))"




text \<open>
  The search of the specification: the lowercased term is a substring (a contiguous
  sublist) of the lowercased title, description, location or category.
\<close>

definition searchSpec :: "string \<Rightarrow> event \<Rightarrow> bool" where
  "searchSpec q e =
     (sublist (toLowerCase q) (toLowerCase (title e)) \<or>
      sublist (toLowerCase q) (toLowerCase (description e)) \<or>
      sublist (toLowerCase q) (toLowerCase (location e)) \<or>
      sublist (toLowerCase q) (toLowerCase (category e)))"

text \<open>
  Sample input of \<open>create\<close>: one with a capacity of \<open>25\<close>, one whose capacity is the text
  \<open>abc\<close>, which the check \<open>capacity <= 0\<close> of the route lets through.
\<close>

definition sampleData :: "jsval \<Rightarrow> eventData" where
  "sampleData c = \<lparr>d_title = ''Gala'', d_category = ''Music'', d_date = ''2030-05-01'',
     d_time = ''19:00'', d_location = ''Hall'', d_description = ''Evening'',
     d_capacity = c, d_price = JString ''10'', d_organizerId = JNumber 1,
     d_organizerName = ''Ann'', d_registrations = Some 0, d_registeredUsers = Some []\<rparr>"

definition badCapacity :: eventData where
  "badCapacity = sampleData (JString ''abc'')"

definition sampleUserData :: userData where
  "sampleUserData = \<lparr>d_name = ''Ann'', d_email = ''Ann@Example.org'', d_password = ''$secret''\<rparr>"

text \<open>
  A sample of the host's date parser on the texts used below (read as UTC), and events
  on those dates.
\<close>

definition sampleParse :: "string \<Rightarrow> int option" where
  "sampleParse x =
     (if x = ''2020-01-01T10:00'' then Some 1577872800000
      else if x = ''2099-01-01T10:00'' then Some 4070944800000
      else None)"

definition datedEvent :: "int \<Rightarrow> string \<Rightarrow> event" where
  "datedEvent i d = (sampleEvent i (Num 5) 0 [])\<lparr>date := d\<rparr>"

definition twoStore :: event_store where
  "twoStore = sampleStore [datedEvent 1 ''2099-01-01'', datedEvent 2 ''2020-01-01''] True"

definition mixedStore :: event_store where
  "mixedStore = sampleStore
     [datedEvent 1 ''2099-01-01'', datedEvent 2 ''next week'', datedEvent 3 ''2020-01-01''] True"

definition festivalStore :: event_store where
  "festivalStore = sampleStore
     [sampleEvent 1 (Num 5) 0 [],
      (sampleEvent 2 (Num 5) 0 [])\<lparr>description := ''Summer Music Festival 2030''\<rparr>] True"

text \<open>
  Sample users, and a sample of \<open>bcrypt.compare\<close>: it throws on an empty hash and
  otherwise compares with the password behind a \<open>$\<close>.
\<close>

definition sampleUser :: "int \<Rightarrow> string \<Rightarrow> jsval list \<Rightarrow> user" where
  "sampleUser i h es = \<lparr>user_id = i, name = ''Ann'', email = ''ann@example.org'',
     password = h, registeredEvents = es,
     user_createdAt = ''2024-01-01T00:00:00.000Z'',
     user_updatedAt = ''2024-01-01T00:00:00.000Z''\<rparr>"

definition sampleUsers :: user_store where
  "sampleUsers = \<lparr>users = [sampleUser 1 ''$secret'' [JString ''3''], sampleUser 2 [] []],
     u_nextId = 3, u_dataFile = Absent, u_writable = True\<rparr>"

definition sampleCompare :: "string \<Rightarrow> string \<Rightarrow> error + bool" where
  "sampleCompare pw h =
     (if h = [] then Inl (Error ''Illegal arguments'') else Inr (h = CHR ''$'' # pw))"

section \<open>Lemmas about the array primitives and the event store\<close>


lemma findIndex_ge: "findIndex P xs \<ge> - 1"
  by (induction xs) (auto simp: Let_def)

lemma findIndex_none: "(findIndex P xs = - 1) = (find P xs = None)"
proof (induction xs)
  case Nil
  show ?case by simp
next
  case (Cons x xs)
  have "findIndex P xs \<ge> - 1" by (rule findIndex_ge)
  with Cons show ?case by (auto simp: Let_def)
qed

lemma findIndex_find:
  "find P xs = Some x \<Longrightarrow>
     0 \<le> findIndex P xs \<and> nat (findIndex P xs) < length xs \<and> xs ! nat (findIndex P xs) = x \<and> P x"
proof (induction xs)
  case Nil
  then show ?case by simp
next
  case (Cons y ys)
  show ?case
  proof (cases "P y")
    case True
    with Cons.prems show ?thesis by simp
  next
    case False
    with Cons.prems have f: "find P ys = Some x" by simp
    from Cons.IH [OF f] have ih: "0 \<le> findIndex P ys" "nat (findIndex P ys) < length ys"
      "ys ! nat (findIndex P ys) = x" "P x" by simp_all
    from ih(1) have ne: "findIndex P ys \<noteq> - 1" by simp
    from ih(1) have n: "nat (findIndex P ys + 1) = Suc (nat (findIndex P ys))" by simp
    show ?thesis using False ih ne n by (simp add: Let_def)
  qed
qed

lemma findIndex_update:
  "find P xs = Some x \<Longrightarrow> P y \<Longrightarrow> findIndex P (xs[nat (findIndex P xs) := y]) = findIndex P xs"
proof (induction xs)
  case Nil
  then show ?case by simp
next
  case (Cons z zs)
  show ?case
  proof (cases "P z")
    case True
    with Cons.prems show ?thesis by simp
  next
    case False
    with Cons.prems have f: "find P zs = Some x" by simp
    from findIndex_find [OF f] have ge: "0 \<le> findIndex P zs" by simp
    then have n: "nat (findIndex P zs + 1) = Suc (nat (findIndex P zs))" by simp
    from ge have ne: "findIndex P zs \<noteq> - 1" by simp
    from Cons.IH [OF f Cons.prems(2)] show ?thesis using False ne n by (simp add: Let_def)
  qed
qed

lemma find_update:
  "find P xs = Some x \<Longrightarrow> P y \<Longrightarrow> find P (xs[nat (findIndex P xs) := y]) = Some y"
proof (induction xs)
  case Nil
  then show ?case by simp
next
  case (Cons z zs)
  show ?case
  proof (cases "P z")
    case True
    with Cons.prems show ?thesis by simp
  next
    case False
    with Cons.prems have f: "find P zs = Some x" by simp
    from findIndex_find [OF f] have ge: "0 \<le> findIndex P zs" by simp
    then have n: "nat (findIndex P zs + 1) = Suc (nat (findIndex P zs))" by simp
    from ge have ne: "findIndex P zs \<noteq> - 1" by simp
    from Cons.IH [OF f Cons.prems(2)] show ?thesis using False ne n by (simp add: Let_def)
  qed
qed


lemma Event_findById_None_index:
  "Event_findById s i = None \<Longrightarrow> findIndex (hasId i) (events s) = - 1"
  by (simp add: Event_findById_def findIndex_none)

lemma Event_update_not_found:
  "Event_findById s i = None \<Longrightarrow> Event_update i u now s = (Inl (Error ''Event not found''), s)"
  by (simp add: Event_update_def Event_findById_None_index)

lemma Event_update_found:
  assumes "Event_findById s i = Some e"
  shows "Event_update i u now s =
     (let E = (events s)[nat (findIndex (hasId i) (events s)) := mergeEvent e u now] in
      if writable s then (Inr (mergeEvent e u now), s\<lparr>events := E, dataFile := Content (map jsonEvent E)\<rparr>)
      else (Inl IOFailure, s\<lparr>events := E\<rparr>))"
proof -
  from assms have f: "find (hasId i) (events s) = Some e" by (simp add: Event_findById_def)
  from findIndex_find [OF f] have k: "0 \<le> findIndex (hasId i) (events s)"
    "nat (findIndex (hasId i) (events s)) < length (events s)"
    "events s ! nat (findIndex (hasId i) (events s)) = e" by simp_all
  from k(1) have ne: "findIndex (hasId i) (events s) \<noteq> - 1" by simp
  show ?thesis using k ne by (simp add: Event_update_def saveEvents_def Let_def)
qed

lemma hasId_mergeEvent: "p_id u = None \<Longrightarrow> hasId i (mergeEvent e u now) = hasId i e"
  by (simp add: hasId_def mergeEvent_def override_def)

lemma registerUser_found:
  assumes f: "Event_findById s eventId = Some e"
    and nfull: "\<not> geNum (registrations e) (capacity e)"
    and nin: "userId \<notin> set (registeredUsers e)"
  shows "registerUser eventId userId now s =
     (let E = (events s)[nat (findIndex (hasId eventId) (events s)) :=
                e\<lparr>registeredUsers := registeredUsers e @ [userId],
                  registrations := registrations e + 1, updatedAt := now\<rparr>] in
      if writable s then (Inr True, s\<lparr>events := E, dataFile := Content (map jsonEvent E)\<rparr>)
      else (Inl IOFailure, s\<lparr>events := E\<rparr>))"
proof -
  define k where "k = nat (findIndex (hasId eventId) (events s))"
  define e2 where "e2 = e\<lparr>registeredUsers := registeredUsers e @ [userId],
                  registrations := registrations e + 1\<rparr>"
  define u where "u = noUpdate\<lparr>p_registeredUsers := Some (registeredUsers e2),
                                 p_registrations := Some (registrations e2)\<rparr>"
  define s1 where "s1 = s\<lparr>events := (events s)[k := e2]\<rparr>"
  from f have ff: "find (hasId eventId) (events s) = Some e" by (simp add: Event_findById_def)
  from findIndex_find [OF ff] have he: "hasId eventId e" by simp
  then have he2: "hasId eventId e2" by (simp add: e2_def hasId_def)
  have f1: "Event_findById s1 eventId = Some e2"
    using find_update [OF ff he2] by (simp add: s1_def k_def Event_findById_def)
  have i1: "findIndex (hasId eventId) (events s1) = findIndex (hasId eventId) (events s)"
    using findIndex_update [OF ff he2] by (simp add: s1_def k_def)
  have m: "mergeEvent e2 u now = e\<lparr>registeredUsers := registeredUsers e @ [userId],
                  registrations := registrations e + 1, updatedAt := now\<rparr>"
    by (simp add: mergeEvent_def u_def e2_def noUpdate_def override_def)
  have r: "registerUser eventId userId now s =
      (case Event_update eventId u now s1 of (Inl err, s2) \<Rightarrow> (Inl err, s2) | (Inr ev, s2) \<Rightarrow> (Inr True, s2))"
    using f nfull nin by (simp add: registerUser_def Let_def u_def s1_def e2_def k_def)
  show ?thesis
    unfolding r Event_update_found [OF f1] i1 m
    by (simp add: Let_def s1_def k_def)
qed



lemma unregisterUser_found:
  assumes f: "Event_findById s eventId = Some e"
    and isin: "userId \<in> set (registeredUsers e)"
  shows "unregisterUser eventId userId now s =
     (let E = (events s)[nat (findIndex (hasId eventId) (events s)) :=
                e\<lparr>registeredUsers := filter (\<lambda>i. i \<noteq> userId) (registeredUsers e),
                  registrations := max 0 (registrations e - 1), updatedAt := now\<rparr>] in
      if writable s then (Inr True, s\<lparr>events := E, dataFile := Content (map jsonEvent E)\<rparr>)
      else (Inl IOFailure, s\<lparr>events := E\<rparr>))"
proof -
  define k where "k = nat (findIndex (hasId eventId) (events s))"
  define e2 where "e2 = e\<lparr>registeredUsers := filter (\<lambda>i. i \<noteq> userId) (registeredUsers e),
                  registrations := max 0 (registrations e - 1)\<rparr>"
  define u where "u = noUpdate\<lparr>p_registeredUsers := Some (registeredUsers e2),
                                 p_registrations := Some (registrations e2)\<rparr>"
  define s1 where "s1 = s\<lparr>events := (events s)[k := e2]\<rparr>"
  from f have ff: "find (hasId eventId) (events s) = Some e" by (simp add: Event_findById_def)
  from findIndex_find [OF ff] have he: "hasId eventId e" by simp
  then have he2: "hasId eventId e2" by (simp add: e2_def hasId_def)
  have f1: "Event_findById s1 eventId = Some e2"
    using find_update [OF ff he2] by (simp add: s1_def k_def Event_findById_def)
  have i1: "findIndex (hasId eventId) (events s1) = findIndex (hasId eventId) (events s)"
    using findIndex_update [OF ff he2] by (simp add: s1_def k_def)
  have m: "mergeEvent e2 u now = e\<lparr>registeredUsers := filter (\<lambda>i. i \<noteq> userId) (registeredUsers e),
                  registrations := max 0 (registrations e - 1), updatedAt := now\<rparr>"
    by (simp add: mergeEvent_def u_def e2_def noUpdate_def override_def)
  have r: "unregisterUser eventId userId now s =
      (case Event_update eventId u now s1 of (Inl err, s2) \<Rightarrow> (Inl err, s2) | (Inr ev, s2) \<Rightarrow> (Inr True, s2))"
    using f isin by (simp add: unregisterUser_def Let_def u_def s1_def e2_def k_def)
  show ?thesis
    unfolding r Event_update_found [OF f1] i1 m
    by (simp add: Let_def s1_def k_def)
qed

lemma registerUser_cases:
  "registerUser eventId userId now s =
     (case Event_findById s eventId of
        None \<Rightarrow> (Inl (Error ''Event not found''), s)
      | Some e \<Rightarrow>
          if geNum (registrations e) (capacity e) then (Inl (Error ''Event is full''), s)
          else if userId \<in> set (registeredUsers e) then
            (Inl (Error ''User already registered for this event''), s)
          else
            (let E = (events s)[nat (findIndex (hasId eventId) (events s)) :=
                e\<lparr>registeredUsers := registeredUsers e @ [userId],
                  registrations := registrations e + 1, updatedAt := now\<rparr>] in
             if writable s then (Inr True, s\<lparr>events := E, dataFile := Content (map jsonEvent E)\<rparr>)
             else (Inl IOFailure, s\<lparr>events := E\<rparr>)))"
proof (cases "Event_findById s eventId")
  case None
  then show ?thesis by (simp add: registerUser_def)
next
  case (Some e)
  show ?thesis
  proof (cases "geNum (registrations e) (capacity e) \<or> userId \<in> set (registeredUsers e)")
    case True
    with Some show ?thesis by (auto simp: registerUser_def)
  next
    case False
    then have a: "\<not> geNum (registrations e) (capacity e)" and b: "userId \<notin> set (registeredUsers e)" by simp_all
    show ?thesis unfolding registerUser_found [OF Some a b] using Some a b by simp
  qed
qed

lemma unregisterUser_cases:
  "unregisterUser eventId userId now s =
     (case Event_findById s eventId of
        None \<Rightarrow> (Inl (Error ''Event not found''), s)
      | Some e \<Rightarrow>
          if userId \<notin> set (registeredUsers e) then
            (Inl (Error ''User not registered for this event''), s)
          else
            (let E = (events s)[nat (findIndex (hasId eventId) (events s)) :=
                e\<lparr>registeredUsers := filter (\<lambda>i. i \<noteq> userId) (registeredUsers e),
                  registrations := max 0 (registrations e - 1), updatedAt := now\<rparr>] in
             if writable s then (Inr True, s\<lparr>events := E, dataFile := Content (map jsonEvent E)\<rparr>)
             else (Inl IOFailure, s\<lparr>events := E\<rparr>)))"
proof (cases "Event_findById s eventId")
  case None
  then show ?thesis by (simp add: unregisterUser_def)
next
  case (Some e)
  show ?thesis
  proof (cases "userId \<in> set (registeredUsers e)")
    case False
    with Some show ?thesis by (auto simp: unregisterUser_def)
  next
    case True
    show ?thesis unfolding unregisterUser_found [OF Some True] using Some True by simp
  qed
qed

lemma Event_update_cases:
  "Event_update i u now s =
     (case Event_findById s i of
        None \<Rightarrow> (Inl (Error ''Event not found''), s)
      | Some e \<Rightarrow>
         (let E = (events s)[nat (findIndex (hasId i) (events s)) := mergeEvent e u now] in
          if writable s then (Inr (mergeEvent e u now), s\<lparr>events := E, dataFile := Content (map jsonEvent E)\<rparr>)
          else (Inl IOFailure, s\<lparr>events := E\<rparr>)))"
  by (cases "Event_findById s i") (simp_all add: Event_update_not_found Event_update_found)

lemma Event_delete_cases:
  "Event_delete i s =
     (case Event_findById s i of
        None \<Rightarrow> (Inl (Error ''Event not found''), s)
      | Some e \<Rightarrow>
         (let E = splice1 (nat (findIndex (hasId i) (events s))) (events s) in
          if writable s then (Inr True, s\<lparr>events := E, dataFile := Content (map jsonEvent E)\<rparr>)
          else (Inl IOFailure, s\<lparr>events := E\<rparr>)))"
proof (cases "Event_findById s i")
  case None
  then show ?thesis by (simp add: Event_delete_def Event_findById_None_index)
next
  case (Some e)
  then have "find (hasId i) (events s) = Some e" by (simp add: Event_findById_def)
  from findIndex_find [OF this] have "findIndex (hasId i) (events s) \<noteq> - 1" by simp
  with Some show ?thesis by (simp add: Event_delete_def saveEvents_def Let_def)
qed



lemma events_registerUser:
  "events (snd (registerUser eventId userId now s)) =
     (case Event_findById s eventId of
        None \<Rightarrow> events s
      | Some e \<Rightarrow>
          if geNum (registrations e) (capacity e) \<or> userId \<in> set (registeredUsers e) then events s
          else (events s)[nat (findIndex (hasId eventId) (events s)) :=
                e\<lparr>registeredUsers := registeredUsers e @ [userId],
                  registrations := registrations e + 1, updatedAt := now\<rparr>])"
  unfolding registerUser_cases by (simp add: Let_def split: option.splits)

lemma events_unregisterUser:
  "events (snd (unregisterUser eventId userId now s)) =
     (case Event_findById s eventId of
        None \<Rightarrow> events s
      | Some e \<Rightarrow>
          if userId \<notin> set (registeredUsers e) then events s
          else (events s)[nat (findIndex (hasId eventId) (events s)) :=
                e\<lparr>registeredUsers := filter (\<lambda>i. i \<noteq> userId) (registeredUsers e),
                  registrations := max 0 (registrations e - 1), updatedAt := now\<rparr>])"
  unfolding unregisterUser_cases by (simp add: Let_def split: option.splits)

lemma Event_findById_index:
  "Event_findById s i = Some e \<Longrightarrow>
     nat (findIndex (hasId i) (events s)) < length (events s) \<and>
     events s ! nat (findIndex (hasId i) (events s)) = e \<and> hasId i e"
  using findIndex_find [of "hasId i" "events s" e] by (simp add: Event_findById_def)

lemma Event_findById_update:
  "Event_findById s i = Some e \<Longrightarrow> hasId i e' \<Longrightarrow> events s' = (events s)[nat (findIndex (hasId i) (events s)) := e'] \<Longrightarrow>
     Event_findById s' i = Some e'"
  using find_update [of "hasId i" "events s" e e'] by (simp add: Event_findById_def)

subsection \<open>Further lemmas: ids, persistence, sorting, search, users\<close>

lemma Event_create_step:
  "event_id (last (events (snd (Event_create d now s)))) = nextId s \<and>
   nextId (snd (Event_create d now s)) = nextId s + 1 \<and>
   butlast (events (snd (Event_create d now s))) = events s \<and>
   (\<forall>e. fst (Event_create d now s) = Inr e \<longrightarrow> e = last (events (snd (Event_create d now s))))"
  by (simp add: Event_create_def saveEvents_def Let_def)

lemma User_create_step:
  "user_id (last (users (snd (User_create d now s)))) = u_nextId s \<and>
   u_nextId (snd (User_create d now s)) = u_nextId s + 1 \<and>
   butlast (users (snd (User_create d now s))) = users s \<and>
   (\<forall>r. fst (User_create d now s) = Inr r \<longrightarrow> r = withoutPassword (last (users (snd (User_create d now s)))))"
  by (simp add: User_create_def saveUsers_def Let_def)

lemma Event_creates_ids:
  "fst (Event_creates cs s) = map (\<lambda>k. nextId s + int k) [0..<length cs] \<and>
   nextId (snd (Event_creates cs s)) = nextId s + int (length cs)"
proof (induction cs arbitrary: s)
  case Nil
  show ?case by simp
next
  case (Cons c cs)
  obtain d now where c: "c = (d, now)" by (cases c)
  define s1 where "s1 = snd (Event_create d now s)"
  have n1: "nextId s1 = nextId s + 1" and l1: "event_id (last (events s1)) = nextId s"
    using Event_create_step [of d now s] by (simp_all add: s1_def)
  have ih: "fst (Event_creates cs s1) = map (\<lambda>k. nextId s1 + int k) [0..<length cs]"
    "nextId (snd (Event_creates cs s1)) = nextId s1 + int (length cs)"
    using Cons.IH [of s1] by simp_all
  have m: "map (\<lambda>k. nextId s + int k) [0..<Suc (length cs)]
      = nextId s # map (\<lambda>k. nextId s + 1 + int k) [0..<length cs]"
    by (simp add: upt_conv_Cons map_Suc_upt [symmetric] del: upt_Suc)
  show ?case
    using ih l1 n1 m by (simp add: c s1_def [symmetric] split_beta Let_def del: upt_Suc)
qed

lemma User_creates_ids:
  "fst (User_creates cs s) = map (\<lambda>k. u_nextId s + int k) [0..<length cs] \<and>
   u_nextId (snd (User_creates cs s)) = u_nextId s + int (length cs)"
proof (induction cs arbitrary: s)
  case Nil
  show ?case by simp
next
  case (Cons c cs)
  obtain d now where c: "c = (d, now)" by (cases c)
  define s1 where "s1 = snd (User_create d now s)"
  have n1: "u_nextId s1 = u_nextId s + 1" and l1: "user_id (last (users s1)) = u_nextId s"
    using User_create_step [of d now s] by (simp_all add: s1_def)
  have ih: "fst (User_creates cs s1) = map (\<lambda>k. u_nextId s1 + int k) [0..<length cs]"
    "u_nextId (snd (User_creates cs s1)) = u_nextId s1 + int (length cs)"
    using Cons.IH [of s1] by simp_all
  have m: "map (\<lambda>k. u_nextId s + int k) [0..<Suc (length cs)]
      = u_nextId s # map (\<lambda>k. u_nextId s + 1 + int k) [0..<length cs]"
    by (simp add: upt_conv_Cons map_Suc_upt [symmetric] del: upt_Suc)
  show ?case
    using ih l1 n1 m by (simp add: c s1_def [symmetric] split_beta Let_def del: upt_Suc)
qed

lemma increasing_from:
  "sorted_wrt (<) (map (\<lambda>k. (a::int) + int k) [0..<n]) \<and>
   distinct (map (\<lambda>k. (a::int) + int k) [0..<n])"
proof -
  have s: "sorted_wrt (<) (map (\<lambda>k. a + int k) [0..<n])"
    by (simp add: sorted_wrt_map sorted_wrt_upt) 
  then have "distinct (map (\<lambda>k. a + int k) [0..<n])"
    by (simp add: strict_sorted_iff)
  with s show ?thesis by simp
qed









lemma doubleOverflow_eq: "doubleOverflow = 2 ^ 1024 - 2 ^ 970"
  by (simp add: doubleOverflow_def)

lemma parseFloat_overflow: "parseFloat (JString ''1e400'') = PosInfinity"
  by code_simp

lemma loadEvents_Content:
  "dataFile s = Content es \<Longrightarrow> int (length es) \<le> maxArgs \<Longrightarrow>
     loadEvents maxArgs s = (Inr (), s\<lparr>events := es,
       nextId := (if es = [] then nextId s else Max (set (map event_id es)) + 1)\<rparr>)"
  by (simp add: loadEvents_def spread_def Let_def)

lemma loadUsers_Content:
  "u_dataFile s = Content us \<Longrightarrow> int (length us) \<le> maxArgs \<Longrightarrow>
     loadUsers maxArgs s = (Inr (), s\<lparr>users := us,
       u_nextId := (if us = [] then u_nextId s else Max (set (map user_id us)) + 1)\<rparr>)"
  by (simp add: loadUsers_def spread_def Let_def)

lemma newEventStore_Content:
  "int (length es) \<le> maxArgs \<Longrightarrow>
   newEventStore maxArgs (Content es) w =
     \<lparr>events = es,
      nextId = (if es = [] then 1 else Max (set (map event_id es)) + 1),
      dataFile = Content es, writable = w\<rparr>"
  by (simp add: newEventStore_def init_def loadEvents_Content)

lemma newUserStore_Content:
  "int (length us) \<le> maxArgs \<Longrightarrow>
   newUserStore maxArgs (Content us) w =
     \<lparr>users = us,
      u_nextId = (if us = [] then 1 else Max (set (map user_id us)) + 1),
      u_dataFile = Content us, u_writable = w\<rparr>"
  by (simp add: newUserStore_def initUsers_def loadUsers_Content)

text \<open>
  Beyond the bound of the spread, \<open>loadEvents\<close> throws the \<open>RangeError\<close> with the collection
  assigned and \<open>nextId\<close> as it was, and the constructor ends with the empty collection
  and \<open>nextId = 1\<close>.
\<close>

lemma loadEvents_over_limit:
  "dataFile s = Content es \<Longrightarrow> es \<noteq> [] \<Longrightarrow> maxArgs < int (length es) \<Longrightarrow>
     loadEvents maxArgs s = (Inl RangeError, s\<lparr>events := es\<rparr>)"
  by (auto simp: loadEvents_def spread_def Let_def)

lemma loadUsers_over_limit:
  "u_dataFile s = Content us \<Longrightarrow> us \<noteq> [] \<Longrightarrow> maxArgs < int (length us) \<Longrightarrow>
     loadUsers maxArgs s = (Inl RangeError, s\<lparr>users := us\<rparr>)"
  by (auto simp: loadUsers_def spread_def Let_def)

lemma newEventStore_over_limit:
  "es \<noteq> [] \<Longrightarrow> maxArgs < int (length es) \<Longrightarrow>
   newEventStore maxArgs (Content es) w =
     \<lparr>events = [], nextId = 1, dataFile = Content es, writable = w\<rparr>"
  by (simp add: newEventStore_def init_def loadEvents_over_limit)

lemma newUserStore_over_limit:
  "us \<noteq> [] \<Longrightarrow> maxArgs < int (length us) \<Longrightarrow>
   newUserStore maxArgs (Content us) w =
     \<lparr>users = [], u_nextId = 1, u_dataFile = Content us, u_writable = w\<rparr>"
  by (simp add: newUserStore_def initUsers_def loadUsers_over_limit)

lemma newEventStore_empty:
  "newEventStore maxArgs (Content []) w =
     \<lparr>events = [], nextId = 1, dataFile = Content [], writable = w\<rparr>"
  by (simp add: newEventStore_def init_def loadEvents_def)

lemma newUserStore_empty:
  "newUserStore maxArgs (Content []) w =
     \<lparr>users = [], u_nextId = 1, u_dataFile = Content [], u_writable = w\<rparr>"
  by (simp add: newUserStore_def initUsers_def loadUsers_def)

lemma newEventStore_ids_below:
  assumes "e \<in> set (events (newEventStore maxArgs f w))"
  shows "event_id e < nextId (newEventStore maxArgs f w)"
proof (cases f)
  case (Content es)
  show ?thesis
  proof (cases "es = [] \<or> maxArgs < int (length es)")
    case True
    show ?thesis
    proof (cases "es = []")
      case True
      with assms Content show ?thesis by (simp add: newEventStore_empty)
    next
      case False
      with \<open>es = [] \<or> maxArgs < int (length es)\<close> have "maxArgs < int (length es)" by simp
      from newEventStore_over_limit [OF False this] assms Content show ?thesis by simp
    qed
  next
    case False
    then have l: "int (length es) \<le> maxArgs" and ne: "es \<noteq> []" by simp_all
    from assms Content have e: "e \<in> set es" by (simp add: newEventStore_Content [OF l])
    then have "event_id e \<le> Max (set (map event_id es))" by simp
    then show ?thesis using ne by (simp add: Content newEventStore_Content [OF l])
  qed
qed (use assms in \<open>simp_all add: newEventStore_def init_def loadEvents_def\<close>)

lemma newUserStore_ids_below:
  assumes "u \<in> set (users (newUserStore maxArgs f w))"
  shows "user_id u < u_nextId (newUserStore maxArgs f w)"
proof (cases f)
  case (Content us)
  show ?thesis
  proof (cases "us = [] \<or> maxArgs < int (length us)")
    case True
    show ?thesis
    proof (cases "us = []")
      case True
      with assms Content show ?thesis by (simp add: newUserStore_empty)
    next
      case False
      with \<open>us = [] \<or> maxArgs < int (length us)\<close> have "maxArgs < int (length us)" by simp
      from newUserStore_over_limit [OF False this] assms Content show ?thesis by simp
    qed
  next
    case False
    then have l: "int (length us) \<le> maxArgs" and ne: "us \<noteq> []" by simp_all
    from assms Content have e: "u \<in> set us" by (simp add: newUserStore_Content [OF l])
    then have "user_id u \<le> Max (set (map user_id us))" by simp
    then show ?thesis using ne by (simp add: Content newUserStore_Content [OF l])
  qed
qed (use assms in \<open>simp_all add: newUserStore_def initUsers_def loadUsers_def\<close>)

lemma truncate_withUpcoming: "event.truncate (withUpcoming e b) = e"
  by (simp add: withUpcoming_def event.defs event_view.defs)

lemma isUpcoming_withUpcoming: "isUpcoming (withUpcoming e b) = b"
  by (simp add: withUpcoming_def event.defs event_view.defs)

lemma startOf_withUpcoming: "startOf parseDate (withUpcoming e b) = startOf parseDate e"
  by (simp add: withUpcoming_def startOf_def event.defs)

lemma mset_insertSorted: "mset (insertSorted c x ys) = add_mset x (mset ys)"
  by (induction ys) simp_all

lemma mset_arraySort: "mset (arraySort c xs) = mset xs"
  unfolding arraySort_def by (induction xs) (simp_all add: mset_insertSorted)

lemma set_arraySort: "set (arraySort c xs) = set xs"
  using mset_arraySort [of c xs] by (metis set_mset_mset)

lemma insertSorted_insort_key:
  assumes "key x \<noteq> None" and "\<forall>y \<in> set ys. key y \<noteq> None"
  shows "insertSorted (\<lambda>a b. dateDiff (key a) (key b)) x ys = insort_key (\<lambda>e. the (key e)) x ys"
  using assms
proof (induction ys)
  case Nil
  show ?case by simp
next
  case (Cons y ys)
  from Cons.prems obtain kx ky where k: "key x = Some kx" "key y = Some ky" by auto
  have c: "(sortCompare (\<lambda>a b. dateDiff (key a) (key b)) x y > 0) = (\<not> kx \<le> ky)"
    by (auto simp: sortCompare_def k)
  from Cons have ih: "insertSorted (\<lambda>a b. dateDiff (key a) (key b)) x ys = insort_key (\<lambda>e. the (key e)) x ys"
    by simp
  show ?case by (simp add: c ih k)
qed

lemma arraySort_sort_key:
  assumes "\<forall>y \<in> set xs. key y \<noteq> None"
  shows "arraySort (\<lambda>a b. dateDiff (key a) (key b)) xs = sort_key (\<lambda>e. the (key e)) xs"
  using assms
proof (induction xs)
  case Nil
  show ?case by (simp add: arraySort_def)
next
  case (Cons x xs)
  then have ih: "arraySort (\<lambda>a b. dateDiff (key a) (key b)) xs = sort_key (\<lambda>e. the (key e)) xs"
    by simp
  have v: "\<forall>y \<in> set (sort_key (\<lambda>e. the (key e)) xs). key y \<noteq> None"
    using Cons.prems by simp
  have kx: "key x \<noteq> None" using Cons.prems by simp
  have "arraySort (\<lambda>a b. dateDiff (key a) (key b)) (x # xs)
      = insertSorted (\<lambda>a b. dateDiff (key a) (key b)) x (arraySort (\<lambda>a b. dateDiff (key a) (key b)) xs)"
    by (simp add: arraySort_def)
  also have "\<dots> = insort_key (\<lambda>e. the (key e)) x (sort_key (\<lambda>e. the (key e)) xs)"
    unfolding ih by (rule insertSorted_insort_key [OF kx v])
  also have "\<dots> = sort_key (\<lambda>e. the (key e)) (x # xs)"
    by (simp add: sort_key_def)
  finally show ?case .
qed

lemma findAll_views:
  "fst (findAll parseDate nowMs s) =
     map (\<lambda>event. withUpcoming event (dateAfter (startOf parseDate event) nowMs))
       (arraySort (\<lambda>a b. dateDiff (startOf parseDate a) (startOf parseDate b)) (events s)) \<and>
   events (snd (findAll parseDate nowMs s)) =
     arraySort (\<lambda>a b. dateDiff (startOf parseDate a) (startOf parseDate b)) (events s)"
  by (simp add: findAll_def Let_def)

lemma findAll_truncate:
  "map event.truncate (fst (findAll parseDate nowMs s)) =
     arraySort (\<lambda>a b. dateDiff (startOf parseDate a) (startOf parseDate b)) (events s)"
  by (simp add: findAll_views truncate_withUpcoming comp_def)

lemma dateAfter_case: "dateAfter d n = (case d of None \<Rightarrow> False | Some t \<Rightarrow> n < t)"
  by (cases d) simp_all

lemma startsWith_prefix: "startsWith s t = prefix t s"
  by (induction s t rule: startsWith.induct) auto

lemma stringIncludes_sublist: "stringIncludes s t = sublist t s"
proof (induction s)
  case Nil
  show ?case by auto
next
  case (Cons d s)
  show ?case by (simp add: Cons.IH startsWith_prefix sublist_Cons_right)
qed

lemma toLowerCase_sublist: "sublist t s \<Longrightarrow> sublist (toLowerCase t) (toLowerCase s)"
  unfolding toLowerCase_def by (rule map_mono_sublist)

lemma music_in_festival: "sublist ''music'' (toLowerCase ''Music Festival'')"
proof -
  have "toLowerCase ''Music Festival'' = [] @ ''music'' @ '' festival''" by code_simp
  then show ?thesis unfolding sublist_def by blast
qed

lemma User_findById_index:
  "User_findById s i = Some u \<Longrightarrow>
     findIndex (hasUserId i) (users s) \<noteq> - 1 \<and>
     nat (findIndex (hasUserId i) (users s)) < length (users s) \<and>
     users s ! nat (findIndex (hasUserId i) (users s)) = u \<and> hasUserId i u"
  using findIndex_find [of "hasUserId i" "users s" u] by (auto simp: User_findById_def)

lemma User_findById_update:
  "User_findById s i = Some u \<Longrightarrow> hasUserId i u' \<Longrightarrow>
     users s' = (users s)[nat (findIndex (hasUserId i) (users s)) := u'] \<Longrightarrow>
     User_findById s' i = Some u' \<and>
     findIndex (hasUserId i) (users s') = findIndex (hasUserId i) (users s)"
  using find_update [of "hasUserId i" "users s" u u']
    findIndex_update [of "hasUserId i" "users s" u u']
  by (simp add: User_findById_def)

lemma User_update_found:
  assumes "User_findById s i = Some u"
  shows "User_update i d now s =
     (let U = (users s)[nat (findIndex (hasUserId i) (users s)) := mergeUser u d now] in
      if u_writable s then
        (Inr (withoutPassword (mergeUser u d now)),
         s\<lparr>users := U, u_dataFile := Content (map jsonUser U)\<rparr>)
      else (Inl IOFailure, s\<lparr>users := U\<rparr>))"
  using User_findById_index [OF assms]
  by (simp add: User_update_def saveUsers_def Let_def)

lemma addRegisteredEvent_cases:
  "addRegisteredEvent userId eventId now s =
     (case User_findById s userId of
        None \<Rightarrow> (Inl (Error ''User not found''), s)
      | Some u \<Rightarrow>
          if eventId \<in> set (registeredEvents u) then (Inr True, s)
          else
            (let U = (users s)[nat (findIndex (hasUserId userId) (users s)) :=
                       u\<lparr>registeredEvents := registeredEvents u @ [eventId],
                         user_updatedAt := now\<rparr>] in
             if u_writable s then
               (Inr True, s\<lparr>users := U, u_dataFile := Content (map jsonUser U)\<rparr>)
             else (Inl IOFailure, s\<lparr>users := U\<rparr>)))"
proof (cases "User_findById s userId")
  case None
  then show ?thesis by (simp add: addRegisteredEvent_def)
next
  case (Some u)
  show ?thesis
  proof (cases "eventId \<in> set (registeredEvents u)")
    case True
    with Some show ?thesis by (simp add: addRegisteredEvent_def)
  next
    case False
    define k where "k = nat (findIndex (hasUserId userId) (users s))"
    define u1 where "u1 = u\<lparr>registeredEvents := registeredEvents u @ [eventId]\<rparr>"
    define d where "d = noUserUpdate\<lparr>q_registeredEvents := Some (registeredEvents u1)\<rparr>"
    define s1 where "s1 = s\<lparr>users := (users s)[k := u1]\<rparr>"
    from User_findById_index [OF Some] have h: "hasUserId userId u" by simp
    then have h1: "hasUserId userId u1" by (simp add: u1_def hasUserId_def)
    have ev: "users s1 = (users s)[nat (findIndex (hasUserId userId) (users s)) := u1]"
      by (simp add: s1_def k_def)
    from User_findById_update [OF Some h1 ev]
    have f1: "User_findById s1 userId = Some u1"
      and i1: "findIndex (hasUserId userId) (users s1) = findIndex (hasUserId userId) (users s)"
      by simp_all
    have m: "mergeUser u1 d now = u\<lparr>registeredEvents := registeredEvents u @ [eventId],
                         user_updatedAt := now\<rparr>"
      by (simp add: mergeUser_def d_def u1_def noUserUpdate_def override_def)
    have r: "addRegisteredEvent userId eventId now s =
        (case User_update userId d now s1 of
           (Inl err, s2) \<Rightarrow> (Inl err, s2) | (Inr r, s2) \<Rightarrow> (Inr True, s2))"
      using Some False by (simp add: addRegisteredEvent_def Let_def d_def s1_def u1_def k_def)
    show ?thesis
      unfolding r User_update_found [OF f1] i1 m
      using Some False by (simp add: Let_def s1_def k_def)
  qed
qed

section \<open>Claims\<close>

text \<open>
  Claim C1. When the counter \<open>registrations\<close> of the target event equals its capacity,
  \<open>registerUser\<close> fails with the conflict \<open>Event is full\<close> and leaves the store as it was.
  After any call of \<open>registerUser\<close>, whether it returns or throws, the array has its old
  length, every event whose counter agreed with the length of its list before the call
  still agrees, and so does the target event as \<open>findById\<close> returns it after the call.
\<close>

theorem registerUser_full_and_consistent:
  "(\<forall>e. Event_findById s eventId = Some e \<and> capacity e = Num (registrations e) \<longrightarrow>
        registerUser eventId userId now s = (Inl (Error ''Event is full''), s) \<and>
        isConflict (Error ''Event is full'')) \<and>
   length (events (snd (registerUser eventId userId now s))) = length (events s) \<and>
   (\<forall>k. k < length (events s) \<and> consistent (events s ! k) \<longrightarrow>
        consistent (events (snd (registerUser eventId userId now s)) ! k)) \<and>
   (\<forall>e. Event_findById s eventId = Some e \<and> consistent e \<longrightarrow>
        (\<exists>e'. Event_findById (snd (registerUser eventId userId now s)) eventId = Some e' \<and>
              consistent e'))"
proof (intro conjI allI impI)
  fix e assume "Event_findById s eventId = Some e \<and> capacity e = Num (registrations e)"
  then show "registerUser eventId userId now s = (Inl (Error ''Event is full''), s)"
    by (simp add: registerUser_def)
next
  show "isConflict (Error ''Event is full'')" by (simp add: isConflict_def)
next
  show "length (events (snd (registerUser eventId userId now s))) = length (events s)"
    unfolding events_registerUser by (simp split: option.splits)
next
  fix k assume k: "k < length (events s) \<and> consistent (events s ! k)"
  show "consistent (events (snd (registerUser eventId userId now s)) ! k)"
  proof (cases "Event_findById s eventId")
    case None
    with k show ?thesis by (simp add: events_registerUser)
  next
    case (Some e)
    from Event_findById_index [OF Some]
    have ix: "events s ! nat (findIndex (hasId eventId) (events s)) = e" by simp
    show ?thesis
    proof (cases "k = nat (findIndex (hasId eventId) (events s))")
      case True
      with k ix have "consistent e" by simp
      then show ?thesis using Some k True
        by (simp add: events_registerUser consistent_def)
    next
      case False
      with k Some show ?thesis by (simp add: events_registerUser)
    qed
  qed
next
  fix e assume a: "Event_findById s eventId = Some e \<and> consistent e"
  then have f: "Event_findById s eventId = Some e" and c: "consistent e" by simp_all
  from Event_findById_index [OF f] have h: "hasId eventId e" by simp
  show "\<exists>e'. Event_findById (snd (registerUser eventId userId now s)) eventId = Some e' \<and> consistent e'"
  proof (cases "geNum (registrations e) (capacity e) \<or> userId \<in> set (registeredUsers e)")
    case True
    with f have "events (snd (registerUser eventId userId now s)) = events s"
      by (simp add: events_registerUser)
    then have "Event_findById (snd (registerUser eventId userId now s)) eventId = Some e"
      using f by (simp add: Event_findById_def)
    with c show ?thesis by blast
  next
    case False
    define e' where "e' = e\<lparr>registeredUsers := registeredUsers e @ [userId],
                  registrations := registrations e + 1, updatedAt := now\<rparr>"
    have h': "hasId eventId e'" using h by (simp add: e'_def hasId_def)
    have ev: "events (snd (registerUser eventId userId now s)) =
        (events s)[nat (findIndex (hasId eventId) (events s)) := e']"
      using f False by (simp add: events_registerUser e'_def)
    have "Event_findById (snd (registerUser eventId userId now s)) eventId = Some e'"
      by (rule Event_findById_update [OF f h' ev])
    moreover have "consistent e'" using c by (simp add: e'_def consistent_def)
    ultimately show ?thesis by blast
  qed
qed

theorem registerUser_full_and_consistent_witness:
  "Event_findById fullStore (JString ''1'') = Some (sampleEvent 1 (Num 1) 1 [JNumber 7]) \<and>
   capacity (sampleEvent 1 (Num 1) 1 [JNumber 7])
     = Num (registrations (sampleEvent 1 (Num 1) 1 [JNumber 7])) \<and>
   registerUser (JString ''1'') (JNumber 8) ''t'' fullStore
     = (Inl (Error ''Event is full''), fullStore) \<and>
   0 < length (events openStore) \<and> consistent (events openStore ! 0) \<and>
   fst (registerUser (JString ''1'') (JNumber 7) ''t'' openStore) = Inr True \<and>
   consistent (events (snd (registerUser (JString ''1'') (JNumber 7) ''t'' openStore)) ! 0) \<and>
   (\<exists>e'. Event_findById (snd (registerUser (JString ''1'') (JNumber 7) ''t'' openStore))
            (JString ''1'') = Some e' \<and> consistent e')"
proof -
  have a: "Event_findById fullStore (JString ''1'') = Some (sampleEvent 1 (Num 1) 1 [JNumber 7]) \<and>
      capacity (sampleEvent 1 (Num 1) 1 [JNumber 7])
        = Num (registrations (sampleEvent 1 (Num 1) 1 [JNumber 7]))"
    by code_simp
  have b: "0 < length (events openStore) \<and> consistent (events openStore ! 0)"
    by code_simp
  have c: "fst (registerUser (JString ''1'') (JNumber 7) ''t'' openStore) = Inr True"
    by code_simp
  have d: "Event_findById openStore (JString ''1'') = Some (sampleEvent 1 (Num 1) 0 []) \<and>
      consistent (sampleEvent 1 (Num 1) 0 [])"
    by code_simp
  from a registerUser_full_and_consistent
         [where s = fullStore and eventId = "JString ''1''" and userId = "JNumber 8"
            and now = "''t''"]
  have full: "registerUser (JString ''1'') (JNumber 8) ''t'' fullStore
     = (Inl (Error ''Event is full''), fullStore)"
    by blast
  from b d registerUser_full_and_consistent
         [where s = openStore and eventId = "JString ''1''" and userId = "JNumber 7"
            and now = "''t''"]
  have kept: "consistent (events (snd (registerUser (JString ''1'') (JNumber 7) ''t'' openStore)) ! 0) \<and>
     (\<exists>e'. Event_findById (snd (registerUser (JString ''1'') (JNumber 7) ''t'' openStore))
            (JString ''1'') = Some e' \<and> consistent e')"
    by blast
  from a b c full kept show ?thesis by blast
qed

text \<open>
  Claim C2, amended. After a successful \<open>registerUser\<close>, a second call with the same
  arguments finds the user in the list of the event and fails with a conflict, leaving
  the store, and so the counter and the list, exactly as the first call left them. The
  conflict is \<open>Event is full\<close> when the first registration took the last seat (that
  check comes first), and \<open>User already registered for this event\<close> otherwise.
\<close>

theorem registerUser_twice:
  assumes ok: "fst (registerUser eventId userId now s) = Inr True"
  shows "\<exists>e1. Event_findById (snd (registerUser eventId userId now s)) eventId = Some e1 \<and>
           userId \<in> set (registeredUsers e1) \<and>
           registerUser eventId userId now' (snd (registerUser eventId userId now s)) =
             (Inl (Error (if geNum (registrations e1) (capacity e1) then ''Event is full''
                          else ''User already registered for this event'')),
              snd (registerUser eventId userId now s)) \<and>
           isConflict (Error (if geNum (registrations e1) (capacity e1) then ''Event is full''
                          else ''User already registered for this event''))"
proof -
  from ok obtain e where f: "Event_findById s eventId = Some e"
    and a: "\<not> geNum (registrations e) (capacity e)" and b: "userId \<notin> set (registeredUsers e)"
    unfolding registerUser_cases by (auto simp: Let_def split: option.splits if_splits)
  define e1 where "e1 = e\<lparr>registeredUsers := registeredUsers e @ [userId],
                  registrations := registrations e + 1, updatedAt := now\<rparr>"
  define s1 where "s1 = snd (registerUser eventId userId now s)"
  from Event_findById_index [OF f] have h: "hasId eventId e" by simp
  have h1: "hasId eventId e1" using h by (simp add: e1_def hasId_def)
  have ev: "events s1 = (events s)[nat (findIndex (hasId eventId) (events s)) := e1]"
    using f a b by (simp add: s1_def events_registerUser e1_def)
  have f1: "Event_findById s1 eventId = Some e1"
    by (rule Event_findById_update [OF f h1 ev])
  have m: "userId \<in> set (registeredUsers e1)" by (simp add: e1_def)
  have r: "registerUser eventId userId now' s1 =
             (Inl (Error (if geNum (registrations e1) (capacity e1) then ''Event is full''
                          else ''User already registered for this event'')), s1)"
    using f1 m by (simp add: registerUser_def)
  have c: "isConflict (Error (if geNum (registrations e1) (capacity e1) then ''Event is full''
                          else ''User already registered for this event''))"
    by (simp add: isConflict_def)
  from f1 m r c show ?thesis unfolding s1_def by blast
qed

theorem registerUser_twice_witness:
  "fst (registerUser (JString ''1'') (JNumber 7) ''t'' roomyStore) = Inr True \<and>
   registerUser (JString ''1'') (JNumber 7) ''u''
       (snd (registerUser (JString ''1'') (JNumber 7) ''t'' roomyStore))
     = (Inl (Error ''User already registered for this event''),
        snd (registerUser (JString ''1'') (JNumber 7) ''t'' roomyStore))"
proof -
  have ok: "fst (registerUser (JString ''1'') (JNumber 7) ''t'' roomyStore) = Inr True"
    by code_simp
  have e1: "Event_findById (snd (registerUser (JString ''1'') (JNumber 7) ''t'' roomyStore))
      (JString ''1'') = Some ((sampleEvent 1 (Num 5) 1 [JNumber 7])\<lparr>updatedAt := ''t''\<rparr>)"
    by code_simp
  have nf: "\<not> geNum (registrations ((sampleEvent 1 (Num 5) 1 [JNumber 7])\<lparr>updatedAt := ''t''\<rparr>))
      (capacity ((sampleEvent 1 (Num 5) 1 [JNumber 7])\<lparr>updatedAt := ''t''\<rparr>))"
    by code_simp
  from registerUser_twice [OF ok, where now' = "''u''"] e1 nf
  have "registerUser (JString ''1'') (JNumber 7) ''u''
       (snd (registerUser (JString ''1'') (JNumber 7) ''t'' roomyStore))
     = (Inl (Error ''User already registered for this event''),
        snd (registerUser (JString ''1'') (JNumber 7) ''t'' roomyStore))"
    by auto
  with ok show ?thesis by blast
qed

text \<open>
  The claim as it stands names the conflict of the second call as the duplicate
  registration. On an event with one seat the second call reports a full event instead.
\<close>

theorem registerUser_twice_counterexample:
  "fst (registerUser (JString ''1'') (JNumber 7) ''t'' openStore) = Inr True \<and>
   fst (registerUser (JString ''1'') (JNumber 7) ''u''
          (snd (registerUser (JString ''1'') (JNumber 7) ''t'' openStore)))
     = Inl (Error ''Event is full'') \<and>
   fst (registerUser (JString ''1'') (JNumber 7) ''u''
          (snd (registerUser (JString ''1'') (JNumber 7) ''t'' openStore)))
     \<noteq> Inl (Error ''User already registered for this event'')"
  by code_simp

text \<open>
  Claim C3, amended. \<open>unregisterUser\<close> fails, leaving the store as it was, when the user
  is not in the list of the event. When the user is in the list, the call removes every
  occurrence of the user and sets the counter to \<open>max 0 (registrations - 1)\<close>: one less
  when the counter was at least \<open>1\<close>, and never negative. No call turns a counter that was
  not negative into a negative one.
\<close>

theorem unregisterUser_clamps:
  "(\<forall>e. Event_findById s eventId = Some e \<and> userId \<notin> set (registeredUsers e) \<longrightarrow>
        unregisterUser eventId userId now s =
          (Inl (Error ''User not registered for this event''), s)) \<and>
   (\<forall>e. Event_findById s eventId = Some e \<and> userId \<in> set (registeredUsers e) \<longrightarrow>
        (\<exists>e'. Event_findById (snd (unregisterUser eventId userId now s)) eventId = Some e' \<and>
              registeredUsers e' = filter (\<lambda>i. i \<noteq> userId) (registeredUsers e) \<and>
              userId \<notin> set (registeredUsers e') \<and>
              registrations e' = max 0 (registrations e - 1) \<and>
              (1 \<le> registrations e \<longrightarrow> registrations e' = registrations e - 1) \<and>
              0 \<le> registrations e')) \<and>
   length (events (snd (unregisterUser eventId userId now s))) = length (events s) \<and>
   (\<forall>k. k < length (events s) \<and> 0 \<le> registrations (events s ! k) \<longrightarrow>
        0 \<le> registrations (events (snd (unregisterUser eventId userId now s)) ! k))"
proof (intro conjI allI impI)
  fix e assume "Event_findById s eventId = Some e \<and> userId \<notin> set (registeredUsers e)"
  then show "unregisterUser eventId userId now s =
          (Inl (Error ''User not registered for this event''), s)"
    by (simp add: unregisterUser_def)
next
  fix e assume a: "Event_findById s eventId = Some e \<and> userId \<in> set (registeredUsers e)"
  then have f: "Event_findById s eventId = Some e" and m: "userId \<in> set (registeredUsers e)"
    by simp_all
  define e' where "e' = e\<lparr>registeredUsers := filter (\<lambda>i. i \<noteq> userId) (registeredUsers e),
                  registrations := max 0 (registrations e - 1), updatedAt := now\<rparr>"
  from Event_findById_index [OF f] have h: "hasId eventId e" by simp
  have h': "hasId eventId e'" using h by (simp add: e'_def hasId_def)
  have ev: "events (snd (unregisterUser eventId userId now s)) =
        (events s)[nat (findIndex (hasId eventId) (events s)) := e']"
    using f m by (simp add: events_unregisterUser e'_def)
  have f': "Event_findById (snd (unregisterUser eventId userId now s)) eventId = Some e'"
    by (rule Event_findById_update [OF f h' ev])
  have "registeredUsers e' = filter (\<lambda>i. i \<noteq> userId) (registeredUsers e) \<and>
              userId \<notin> set (registeredUsers e') \<and>
              registrations e' = max 0 (registrations e - 1) \<and>
              (1 \<le> registrations e \<longrightarrow> registrations e' = registrations e - 1) \<and>
              0 \<le> registrations e'"
    by (simp add: e'_def)
  with f' show "\<exists>e'. Event_findById (snd (unregisterUser eventId userId now s)) eventId = Some e' \<and>
              registeredUsers e' = filter (\<lambda>i. i \<noteq> userId) (registeredUsers e) \<and>
              userId \<notin> set (registeredUsers e') \<and>
              registrations e' = max 0 (registrations e - 1) \<and>
              (1 \<le> registrations e \<longrightarrow> registrations e' = registrations e - 1) \<and>
              0 \<le> registrations e'"
    by blast
next
  show "length (events (snd (unregisterUser eventId userId now s))) = length (events s)"
    unfolding events_unregisterUser by (simp split: option.splits)
next
  fix k assume k: "k < length (events s) \<and> 0 \<le> registrations (events s ! k)"
  show "0 \<le> registrations (events (snd (unregisterUser eventId userId now s)) ! k)"
  proof (cases "Event_findById s eventId")
    case None
    with k show ?thesis by (simp add: events_unregisterUser)
  next
    case (Some e)
    show ?thesis
    proof (cases "k = nat (findIndex (hasId eventId) (events s))")
      case True
      then show ?thesis using Some k by (simp add: events_unregisterUser)
    next
      case False
      with k Some show ?thesis by (simp add: events_unregisterUser)
    qed
  qed
qed

theorem unregisterUser_clamps_witness:
  "Event_findById fullStore (JString ''1'') = Some (sampleEvent 1 (Num 1) 1 [JNumber 7]) \<and>
   JNumber 9 \<notin> set (registeredUsers (sampleEvent 1 (Num 1) 1 [JNumber 7])) \<and>
   unregisterUser (JString ''1'') (JNumber 9) ''t'' fullStore
     = (Inl (Error ''User not registered for this event''), fullStore) \<and>
   JNumber 7 \<in> set (registeredUsers (sampleEvent 1 (Num 1) 1 [JNumber 7])) \<and>
   1 \<le> registrations (sampleEvent 1 (Num 1) 1 [JNumber 7]) \<and>
   (\<exists>e'. Event_findById (snd (unregisterUser (JString ''1'') (JNumber 7) ''t'' fullStore))
            (JString ''1'') = Some e' \<and>
          registeredUsers e' = [] \<and> registrations e' = 0) \<and>
   0 < length (events fullStore) \<and> 0 \<le> registrations (events fullStore ! 0) \<and>
   0 \<le> registrations (events (snd (unregisterUser (JString ''1'') (JNumber 7) ''t'' fullStore)) ! 0)"
proof -
  have a: "Event_findById fullStore (JString ''1'') = Some (sampleEvent 1 (Num 1) 1 [JNumber 7])"
    by code_simp
  have b: "JNumber 9 \<notin> set (registeredUsers (sampleEvent 1 (Num 1) 1 [JNumber 7]))"
    by code_simp
  have c: "JNumber 7 \<in> set (registeredUsers (sampleEvent 1 (Num 1) 1 [JNumber 7]))"
    by code_simp
  have d: "1 \<le> registrations (sampleEvent 1 (Num 1) 1 [JNumber 7]) \<and>
      registrations (sampleEvent 1 (Num 1) 1 [JNumber 7]) - 1 = 0 \<and>
      filter (\<lambda>i. i \<noteq> JNumber 7) (registeredUsers (sampleEvent 1 (Num 1) 1 [JNumber 7])) = []"
    by code_simp
  have k: "0 < length (events fullStore) \<and> 0 \<le> registrations (events fullStore ! 0)"
    by code_simp
  from a b unregisterUser_clamps
         [where s = fullStore and eventId = "JString ''1''" and userId = "JNumber 9"
            and now = "''t''"]
  have r1: "unregisterUser (JString ''1'') (JNumber 9) ''t'' fullStore
     = (Inl (Error ''User not registered for this event''), fullStore)"
    by blast
  from a c unregisterUser_clamps
         [where s = fullStore and eventId = "JString ''1''" and userId = "JNumber 7"
            and now = "''t''"]
  obtain e' where e': "Event_findById (snd (unregisterUser (JString ''1'') (JNumber 7) ''t'' fullStore))
            (JString ''1'') = Some e'"
      "registeredUsers e' = filter (\<lambda>i. i \<noteq> JNumber 7) (registeredUsers (sampleEvent 1 (Num 1) 1 [JNumber 7]))"
      "1 \<le> registrations (sampleEvent 1 (Num 1) 1 [JNumber 7]) \<longrightarrow>
         registrations e' = registrations (sampleEvent 1 (Num 1) 1 [JNumber 7]) - 1"
    by blast
  with d have r2: "\<exists>e'. Event_findById (snd (unregisterUser (JString ''1'') (JNumber 7) ''t'' fullStore))
            (JString ''1'') = Some e' \<and> registeredUsers e' = [] \<and> registrations e' = 0"
    by auto
  from k unregisterUser_clamps
         [where s = fullStore and eventId = "JString ''1''" and userId = "JNumber 7"
            and now = "''t''"]
  have r3: "0 \<le> registrations (events (snd (unregisterUser (JString ''1'') (JNumber 7) ''t'' fullStore)) ! 0)"
    by blast
  from a b c d k r1 r2 r3 show ?thesis by blast
qed

text \<open>
  The claim as it stands promises a decrement by one for every store and a counter that
  is never negative after any call. With a counter of \<open>0\<close> beside one registered user the
  call succeeds and the counter stays \<open>0\<close>; with a negative counter a failing call leaves
  it negative.
\<close>

theorem unregisterUser_counterexample:
  "Event_findById driftStore (JString ''1'') = Some (sampleEvent 1 (Num 5) 0 [JNumber 7]) \<and>
   JNumber 7 \<in> set (registeredUsers (sampleEvent 1 (Num 5) 0 [JNumber 7])) \<and>
   fst (unregisterUser (JString ''1'') (JNumber 7) ''t'' driftStore) = Inr True \<and>
   registrations (events (snd (unregisterUser (JString ''1'') (JNumber 7) ''t'' driftStore)) ! 0)
     \<noteq> registrations (events driftStore ! 0) - 1 \<and>
   fst (unregisterUser (JString ''1'') (JNumber 7) ''t'' negativeStore)
     = Inl (Error ''User not registered for this event'') \<and>
   registrations (events (snd (unregisterUser (JString ''1'') (JNumber 7) ''t'' negativeStore)) ! 0)
     < 0"
  by code_simp

text \<open>
  Claim C4. In every sequence of \<open>create\<close> calls on one event store, and on one user
  store, the ids the calls assign are \<open>nextId\<close>, \<open>nextId + 1\<close>, and so on: strictly
  increasing, hence each is new and greater than every id assigned before it. The
  object a successful call returns carries the id the call assigned. In a store as the
  constructor leaves it, every id in the collection is below \<open>nextId\<close>, so below every
  id that \<open>create\<close> assigns.
\<close>

theorem create_ids_strictly_increase:
  "fst (Event_creates cs s) = map (\<lambda>k. nextId s + int k) [0..<length cs] \<and>
   sorted_wrt (<) (fst (Event_creates cs s)) \<and> distinct (fst (Event_creates cs s)) \<and>
   (\<forall>e. fst (Event_create d now s) = Inr e \<longrightarrow> event_id e = nextId s) \<and>
   fst (User_creates us t) = map (\<lambda>k. u_nextId t + int k) [0..<length us] \<and>
   sorted_wrt (<) (fst (User_creates us t)) \<and> distinct (fst (User_creates us t)) \<and>
   (\<forall>r. fst (User_create d' now' t) = Inr r \<longrightarrow> r_id r = u_nextId t) \<and>
   (\<forall>e \<in> set (events (newEventStore maxArgs f w)). event_id e < nextId (newEventStore maxArgs f w)) \<and>
   (\<forall>u \<in> set (users (newUserStore maxArgs g w')). user_id u < u_nextId (newUserStore maxArgs g w'))"
proof (intro conjI allI impI ballI)
  show "fst (Event_creates cs s) = map (\<lambda>k. nextId s + int k) [0..<length cs]"
    by (simp add: Event_creates_ids)
  show "sorted_wrt (<) (fst (Event_creates cs s))"
    by (simp only: Event_creates_ids increasing_from)
  show "distinct (fst (Event_creates cs s))"
    by (simp only: Event_creates_ids increasing_from)
  show "fst (User_creates us t) = map (\<lambda>k. u_nextId t + int k) [0..<length us]"
    by (simp add: User_creates_ids)
  show "sorted_wrt (<) (fst (User_creates us t))"
    by (simp only: User_creates_ids increasing_from)
  show "distinct (fst (User_creates us t))"
    by (simp only: User_creates_ids increasing_from)
next
  fix e assume "fst (Event_create d now s) = Inr e"
  with Event_create_step [of d now s] show "event_id e = nextId s" by simp
next
  fix r assume "fst (User_create d' now' t) = Inr r"
  with User_create_step [of d' now' t] show "r_id r = u_nextId t"
    by (simp add: withoutPassword_def)
next
  fix e assume "e \<in> set (events (newEventStore maxArgs f w))"
  then show "event_id e < nextId (newEventStore maxArgs f w)" by (rule newEventStore_ids_below)
next
  fix u assume "u \<in> set (users (newUserStore maxArgs g w'))"
  then show "user_id u < u_nextId (newUserStore maxArgs g w')" by (rule newUserStore_ids_below)
qed

theorem create_ids_strictly_increase_witness:
  "fst (Event_creates [(sampleData (JNumber 25), ''t1''), (badCapacity, ''t2''),
          (sampleData (JString ''40''), ''t3'')] (newEventStore 100000 Absent True)) = [1, 2, 3] \<and>
   sorted_wrt (<) (fst (Event_creates [(sampleData (JNumber 25), ''t1''), (badCapacity, ''t2''),
          (sampleData (JString ''40''), ''t3'')] (newEventStore 100000 Absent True))) \<and>
   (\<exists>e. fst (Event_create (sampleData (JNumber 25)) ''t1'' (newEventStore 100000 Absent True)) = Inr e \<and>
        event_id e = 1) \<and>
   fst (User_creates [(sampleUserData, ''t1''), (sampleUserData, ''t2'')]
          (newUserStore 100000 Absent False)) = [1, 2] \<and>
   distinct (fst (User_creates [(sampleUserData, ''t1''), (sampleUserData, ''t2'')]
          (newUserStore 100000 Absent False))) \<and>
   (\<exists>r. fst (User_create sampleUserData ''t1'' (newUserStore 100000 Absent True)) = Inr r \<and>
        r_id r = 1) \<and>
   events (newEventStore 100000 (Content (events roomyStore)) True) = events roomyStore \<and>
   list_all (\<lambda>e. event_id e < nextId (newEventStore 100000 (Content (events roomyStore)) True))
     (events (newEventStore 100000 (Content (events roomyStore)) True)) \<and>
   users (newUserStore 100000 (Content (users sampleUsers)) True) = users sampleUsers \<and>
   list_all (\<lambda>u. user_id u < u_nextId (newUserStore 100000 (Content (users sampleUsers)) True))
     (users (newUserStore 100000 (Content (users sampleUsers)) True))"
proof -
  note ev = create_ids_strictly_increase
      [where cs = "[(sampleData (JNumber 25), ''t1''), (badCapacity, ''t2''),
          (sampleData (JString ''40''), ''t3'')]"
         and s = "newEventStore 100000 Absent True" and d = "sampleData (JNumber 25)" and now = "''t1''"
         and us = "[(sampleUserData, ''t1''), (sampleUserData, ''t2'')]"
         and t = "newUserStore 100000 Absent False" and d' = sampleUserData and now' = "''t1''"
         and maxArgs = 100000 and f = "Content (events roomyStore)" and w = True
         and g = "Content (users sampleUsers)" and w' = True]
  note us = create_ids_strictly_increase
      [where cs = "[]" and s = "newEventStore 100000 Absent True" and d = "sampleData (JNumber 25)"
         and now = "''t1''" and us = "[]"
         and t = "newUserStore 100000 Absent True" and d' = sampleUserData and now' = "''t1''"]
  have n: "nextId (newEventStore 100000 Absent True) = 1 \<and> u_nextId (newUserStore 100000 Absent False) = 1
      \<and> u_nextId (newUserStore 100000 Absent True) = 1"
    by code_simp
  have a: "\<exists>e. fst (Event_create (sampleData (JNumber 25)) ''t1'' (newEventStore 100000 Absent True)) = Inr e"
    by (simp add: Event_create_def saveEvents_def newEventStore_def init_def loadEvents_def Let_def)
  have b: "\<exists>r. fst (User_create sampleUserData ''t1'' (newUserStore 100000 Absent True)) = Inr r"
    by (simp add: User_create_def saveUsers_def newUserStore_def initUsers_def loadUsers_def Let_def)
  have l: "[0..<length [(sampleData (JNumber 25), ''t1''), (badCapacity, ''t2''),
          (sampleData (JString ''40''), ''t3'')]] = [0, 1, 2] \<and>
      [0..<length [(sampleUserData, ''t1''), (sampleUserData, ''t2'')]] = [0, 1]"
    by code_simp
  from ev n l have i1: "fst (Event_creates [(sampleData (JNumber 25), ''t1''), (badCapacity, ''t2''),
          (sampleData (JString ''40''), ''t3'')] (newEventStore 100000 Absent True)) = [1, 2, 3]"
    by simp
  from ev n l have i2: "fst (User_creates [(sampleUserData, ''t1''), (sampleUserData, ''t2'')]
          (newUserStore 100000 Absent False)) = [1, 2]"
    by simp
  from a ev n have i3: "\<exists>e. fst (Event_create (sampleData (JNumber 25)) ''t1''
        (newEventStore 100000 Absent True)) = Inr e \<and> event_id e = 1"
    by auto
  from b us n have i4: "\<exists>r. fst (User_create sampleUserData ''t1'' (newUserStore 100000 Absent True)) = Inr r \<and>
        r_id r = 1"
    by auto
  have c: "events (newEventStore 100000 (Content (events roomyStore)) True) = events roomyStore \<and>
      users (newUserStore 100000 (Content (users sampleUsers)) True) = users sampleUsers"
    by (simp add: newEventStore_Content newUserStore_Content roomyStore_def sampleStore_def
        sampleUsers_def)
  from ev have "\<forall>e \<in> set (events (newEventStore 100000 (Content (events roomyStore)) True)).
      event_id e < nextId (newEventStore 100000 (Content (events roomyStore)) True)"
    by blast
  then have i5: "list_all
      (\<lambda>e. event_id e < nextId (newEventStore 100000 (Content (events roomyStore)) True))
      (events (newEventStore 100000 (Content (events roomyStore)) True))"
    by (simp only: list_all_iff)
  from ev have "\<forall>u \<in> set (users (newUserStore 100000 (Content (users sampleUsers)) True)).
      user_id u < u_nextId (newUserStore 100000 (Content (users sampleUsers)) True)"
    by blast
  then have i6: "list_all
      (\<lambda>u. user_id u < u_nextId (newUserStore 100000 (Content (users sampleUsers)) True))
      (users (newUserStore 100000 (Content (users sampleUsers)) True))"
    by (simp only: list_all_iff)
  from ev i1 i2 i3 i4 c i5 i6 show ?thesis by blast
qed




text \<open>
  Claim C6, amended. \<open>findAll\<close> returns every event of the store, each with \<open>isUpcoming\<close>
  true exactly when the event has a valid start and the current time is strictly before
  it, and leaves the array of the store in the order it returns. When the date and time
  of every event parse to a valid start, the result is the stable sort of the events by
  start, ascending. For the two events of 2099-01-01 10:00 and 2020-01-01 10:00, at any
  current time from the start of the second up to, but not including, the start of the
  first, the result is the event of 2020 with \<open>isUpcoming = false\<close> followed by the event
  of 2099 with \<open>isUpcoming = true\<close>.
\<close>

theorem findAll_sorted_upcoming:
  "mset (map event.truncate (fst (findAll parseDate nowMs s))) = mset (events s) \<and>
   events (snd (findAll parseDate nowMs s)) = map event.truncate (fst (findAll parseDate nowMs s)) \<and>
   (\<forall>v \<in> set (fst (findAll parseDate nowMs s)).
      isUpcoming v = (case startOf parseDate v of None \<Rightarrow> False | Some t \<Rightarrow> nowMs < t)) \<and>
   ((\<forall>e \<in> set (events s). startOf parseDate e \<noteq> None) \<longrightarrow>
      map event.truncate (fst (findAll parseDate nowMs s))
        = sort_key (\<lambda>e. the (startOf parseDate e)) (events s) \<and>
      sorted (map (\<lambda>v. the (startOf parseDate v)) (fst (findAll parseDate nowMs s)))) \<and>
   (\<forall>e1 e2 a b.
      events s = [e1, e2] \<and>
      date e1 = ''2099-01-01'' \<and> time e1 = ''10:00'' \<and>
      date e2 = ''2020-01-01'' \<and> time e2 = ''10:00'' \<and>
      parseDate ''2020-01-01T10:00'' = Some a \<and> parseDate ''2099-01-01T10:00'' = Some b \<and>
      a \<le> nowMs \<and> nowMs < b \<longrightarrow>
      fst (findAll parseDate nowMs s) = [withUpcoming e2 False, withUpcoming e1 True])"
proof (intro conjI ballI allI impI)
  show "mset (map event.truncate (fst (findAll parseDate nowMs s))) = mset (events s)"
    by (simp only: findAll_truncate mset_arraySort)
next
  show "events (snd (findAll parseDate nowMs s)) = map event.truncate (fst (findAll parseDate nowMs s))"
    by (simp add: findAll_views truncate_withUpcoming comp_def)
next
  fix v assume "v \<in> set (fst (findAll parseDate nowMs s))"
  then obtain e where "v = withUpcoming e (dateAfter (startOf parseDate e) nowMs)"
    by (auto simp: findAll_views)
  then show "isUpcoming v = (case startOf parseDate v of None \<Rightarrow> False | Some t \<Rightarrow> nowMs < t)"
    by (simp add: isUpcoming_withUpcoming startOf_withUpcoming dateAfter_case)
next
  assume valid: "\<forall>e \<in> set (events s). startOf parseDate e \<noteq> None"
  show t: "map event.truncate (fst (findAll parseDate nowMs s))
        = sort_key (\<lambda>e. the (startOf parseDate e)) (events s)"
    unfolding findAll_truncate by (rule arraySort_sort_key [OF valid])
  have "map (\<lambda>v. the (startOf parseDate v)) (fst (findAll parseDate nowMs s))
      = map (\<lambda>e. the (startOf parseDate e)) (map event.truncate (fst (findAll parseDate nowMs s)))"
    by (simp add: findAll_views truncate_withUpcoming startOf_withUpcoming comp_def)
  also have "\<dots> = map (\<lambda>e. the (startOf parseDate e)) (sort_key (\<lambda>e. the (startOf parseDate e)) (events s))"
    by (simp only: t)
  finally show "sorted (map (\<lambda>v. the (startOf parseDate v)) (fst (findAll parseDate nowMs s)))"
    by (simp only: sorted_sort_key)
next
  fix e1 e2 a b
  assume h: "events s = [e1, e2] \<and>
      date e1 = ''2099-01-01'' \<and> time e1 = ''10:00'' \<and>
      date e2 = ''2020-01-01'' \<and> time e2 = ''10:00'' \<and>
      parseDate ''2020-01-01T10:00'' = Some a \<and> parseDate ''2099-01-01T10:00'' = Some b \<and>
      a \<le> nowMs \<and> nowMs < b"
  then have s1: "startOf parseDate e1 = Some b" and s2: "startOf parseDate e2 = Some a"
    by (simp_all add: startOf_def)
  from h have ab: "a < b" by simp
  have "arraySort (\<lambda>x y. dateDiff (startOf parseDate x) (startOf parseDate y)) [e1, e2] = [e2, e1]"
    using ab by (simp add: arraySort_def sortCompare_def s1 s2)
  then show "fst (findAll parseDate nowMs s) = [withUpcoming e2 False, withUpcoming e1 True]"
    using h by (simp add: findAll_views s1 s2)
qed

theorem findAll_sorted_upcoming_witness:
  "list_all (\<lambda>e. startOf sampleParse e \<noteq> None) (events twoStore) \<and>
   sorted (map (\<lambda>v. the (startOf sampleParse v)) (fst (findAll sampleParse 1793620800000 twoStore))) \<and>
   events twoStore = [datedEvent 1 ''2099-01-01'', datedEvent 2 ''2020-01-01''] \<and>
   sampleParse ''2020-01-01T10:00'' = Some 1577872800000 \<and>
   sampleParse ''2099-01-01T10:00'' = Some 4070944800000 \<and>
   fst (findAll sampleParse 1793620800000 twoStore)
     = [withUpcoming (datedEvent 2 ''2020-01-01'') False,
        withUpcoming (datedEvent 1 ''2099-01-01'') True] \<and>
   list_all (\<lambda>v. isUpcoming v = (case startOf sampleParse v of None \<Rightarrow> False
                                  | Some t \<Rightarrow> 1793620800000 < t))
     (fst (findAll sampleParse 1793620800000 twoStore))"
proof -
  have v: "list_all (\<lambda>e. startOf sampleParse e \<noteq> None) (events twoStore)"
    by code_simp
  then have v': "\<forall>e \<in> set (events twoStore). startOf sampleParse e \<noteq> None"
    by (simp only: list_all_iff)
  have h: "events twoStore = [datedEvent 1 ''2099-01-01'', datedEvent 2 ''2020-01-01''] \<and>
      date (datedEvent 1 ''2099-01-01'') = ''2099-01-01'' \<and>
      time (datedEvent 1 ''2099-01-01'') = ''10:00'' \<and>
      date (datedEvent 2 ''2020-01-01'') = ''2020-01-01'' \<and>
      time (datedEvent 2 ''2020-01-01'') = ''10:00'' \<and>
      sampleParse ''2020-01-01T10:00'' = Some 1577872800000 \<and>
      sampleParse ''2099-01-01T10:00'' = Some 4070944800000 \<and>
      (1577872800000 :: int) \<le> 1793620800000 \<and> (1793620800000 :: int) < 4070944800000"
    by code_simp
  note th = findAll_sorted_upcoming
      [where parseDate = sampleParse and nowMs = 1793620800000 and s = twoStore]
  from th v' have r1: "sorted (map (\<lambda>v. the (startOf sampleParse v))
      (fst (findAll sampleParse 1793620800000 twoStore)))"
    by blast
  from th h have r2: "fst (findAll sampleParse 1793620800000 twoStore)
     = [withUpcoming (datedEvent 2 ''2020-01-01'') False,
        withUpcoming (datedEvent 1 ''2099-01-01'') True]"
    by blast
  from th have "\<forall>v \<in> set (fst (findAll sampleParse 1793620800000 twoStore)).
      isUpcoming v = (case startOf sampleParse v of None \<Rightarrow> False | Some t \<Rightarrow> 1793620800000 < t)"
    by blast
  then have r3: "list_all (\<lambda>v. isUpcoming v = (case startOf sampleParse v of None \<Rightarrow> False
                                  | Some t \<Rightarrow> 1793620800000 < t))
     (fst (findAll sampleParse 1793620800000 twoStore))"
    by (simp only: list_all_iff)
  from v h r1 r2 r3 show ?thesis by blast
qed

text \<open>
  The claim as it stands speaks of every collection and of no particular current time.
  With an event whose date does not parse between the event of 2099 and the event of
  2020, every comparison the sort makes is with \<open>NaN\<close> and the array stays as it is, the
  event of 2099 before the event of 2020. And once the current time has reached the
  start of the event of 2099, that event is no longer upcoming.
\<close>

theorem findAll_counterexample:
  "map (startOf sampleParse) (fst (findAll sampleParse 1793620800000 mixedStore))
     = [Some 4070944800000, None, Some 1577872800000] \<and>
   map date (fst (findAll sampleParse 1793620800000 mixedStore))
     = [''2099-01-01'', ''next week'', ''2020-01-01''] \<and>
   map date (fst (findAll sampleParse 4102480800000 twoStore))
     = [''2020-01-01'', ''2099-01-01''] \<and>
   map isUpcoming (fst (findAll sampleParse 4102480800000 twoStore)) = [False, False]"
  by code_simp

text \<open>
  Claim C7. \<open>search\<close> returns, in the order of the store, exactly the events for which
  the lowercased term is a substring of the lowercased title, description, location or
  category. In particular \<open>search("music")\<close> returns every event whose description
  contains \<open>Music Festival\<close>.
\<close>

theorem search_matches:
  "search query s = filter (searchSpec query) (events s) \<and>
   set (search query s) = {e \<in> set (events s). searchSpec query e} \<and>
   (\<forall>e \<in> set (events s).
      sublist ''Music Festival'' (description e) \<longrightarrow> e \<in> set (search ''music'' s))"
proof (intro conjI ballI impI)
  have "searchSpec query = (\<lambda>event.
          stringIncludes (toLowerCase (title event)) (toLowerCase query) \<or>
          stringIncludes (toLowerCase (description event)) (toLowerCase query) \<or>
          stringIncludes (toLowerCase (location event)) (toLowerCase query) \<or>
          stringIncludes (toLowerCase (category event)) (toLowerCase query))"
    by (rule ext) (simp add: searchSpec_def stringIncludes_sublist)
  then show eq: "search query s = filter (searchSpec query) (events s)"
    by (simp add: search_def Let_def)
  then show "set (search query s) = {e \<in> set (events s). searchSpec query e}" by simp
next
  fix e assume e: "e \<in> set (events s)" and d: "sublist ''Music Festival'' (description e)"
  have lq: "toLowerCase ''music'' = ''music''" by code_simp
  from toLowerCase_sublist [OF d]
  have "sublist (toLowerCase ''Music Festival'') (toLowerCase (description e))" .
  with music_in_festival have "sublist ''music'' (toLowerCase (description e))"
    by (rule sublist_order.order.trans)
  then have "searchSpec ''music'' e" by (simp add: searchSpec_def lq)
  with e show "e \<in> set (search ''music'' s)"
    by (simp add: search_def searchSpec_def Let_def stringIncludes_sublist)
qed

theorem search_matches_witness:
  "(sampleEvent 2 (Num 5) 0 [])\<lparr>description := ''Summer Music Festival 2030''\<rparr>
     \<in> set (events festivalStore) \<and>
   sublist ''Music Festival''
     (description ((sampleEvent 2 (Num 5) 0 [])\<lparr>description := ''Summer Music Festival 2030''\<rparr>)) \<and>
   (sampleEvent 2 (Num 5) 0 [])\<lparr>description := ''Summer Music Festival 2030''\<rparr>
     \<in> set (search ''music'' festivalStore) \<and>
   map event_id (search ''music'' festivalStore) = [2]"
proof -
  have a: "(sampleEvent 2 (Num 5) 0 [])\<lparr>description := ''Summer Music Festival 2030''\<rparr>
     \<in> set (events festivalStore)"
    by (simp add: festivalStore_def sampleStore_def)
  have "description ((sampleEvent 2 (Num 5) 0 [])\<lparr>description := ''Summer Music Festival 2030''\<rparr>)
      = ''Summer '' @ ''Music Festival'' @ '' 2030''"
    by simp
  then have b: "sublist ''Music Festival''
     (description ((sampleEvent 2 (Num 5) 0 [])\<lparr>description := ''Summer Music Festival 2030''\<rparr>))"
    unfolding sublist_def by blast
  have c: "map event_id (search ''music'' festivalStore) = [2]"
    by code_simp
  from a b search_matches [where query = "''music''" and s = festivalStore]
  have "(sampleEvent 2 (Num 5) 0 [])\<lparr>description := ''Summer Music Festival 2030''\<rparr>
     \<in> set (search ''music'' festivalStore)"
    by blast
  with a b c show ?thesis by blast
qed

text \<open>
  Claim C8. \<open>validatePassword\<close> never throws. It returns \<open>false\<close> when no user has the
  id and when the comparison of the hash throws, and otherwise the answer of the
  comparison of the password with the stored hash.
\<close>

theorem validatePassword_never_raises:
  "(\<forall>err. validatePassword compare s userId pw \<noteq> Inl err) \<and>
   (User_findById s userId = None \<longrightarrow> validatePassword compare s userId pw = Inr False) \<and>
   (\<forall>u err. User_findById s userId = Some u \<and> compare pw (password u) = Inl err \<longrightarrow>
      validatePassword compare s userId pw = Inr False) \<and>
   (\<forall>u b. User_findById s userId = Some u \<and> compare pw (password u) = Inr b \<longrightarrow>
      validatePassword compare s userId pw = Inr b)"
  by (auto simp: validatePassword_def split: option.splits sum.splits)

theorem validatePassword_never_raises_witness:
  "User_findById sampleUsers (JNumber 9) = None \<and>
   validatePassword sampleCompare sampleUsers (JNumber 9) ''secret'' = Inr False \<and>
   User_findById sampleUsers (JString ''2'') = Some (sampleUser 2 [] []) \<and>
   sampleCompare ''secret'' (password (sampleUser 2 [] [])) = Inl (Error ''Illegal arguments'') \<and>
   validatePassword sampleCompare sampleUsers (JString ''2'') ''secret'' = Inr False \<and>
   User_findById sampleUsers (JNumber 1) = Some (sampleUser 1 ''$secret'' [JString ''3'']) \<and>
   sampleCompare ''secret'' (password (sampleUser 1 ''$secret'' [JString ''3''])) = Inr True \<and>
   validatePassword sampleCompare sampleUsers (JNumber 1) ''secret'' = Inr True \<and>
   sampleCompare ''guess'' (password (sampleUser 1 ''$secret'' [JString ''3''])) = Inr False \<and>
   validatePassword sampleCompare sampleUsers (JNumber 1) ''guess'' = Inr False"
proof -
  have a: "User_findById sampleUsers (JNumber 9) = None"
    by code_simp
  have b: "User_findById sampleUsers (JString ''2'') = Some (sampleUser 2 [] []) \<and>
      sampleCompare ''secret'' (password (sampleUser 2 [] [])) = Inl (Error ''Illegal arguments'')"
    by code_simp
  have c: "User_findById sampleUsers (JNumber 1) = Some (sampleUser 1 ''$secret'' [JString ''3'']) \<and>
      sampleCompare ''secret'' (password (sampleUser 1 ''$secret'' [JString ''3''])) = Inr True"
    by code_simp
  have d: "sampleCompare ''guess'' (password (sampleUser 1 ''$secret'' [JString ''3''])) = Inr False"
    by code_simp
  from a validatePassword_never_raises
      [where compare = sampleCompare and s = sampleUsers and userId = "JNumber 9"
         and pw = "''secret''"]
  have r1: "validatePassword sampleCompare sampleUsers (JNumber 9) ''secret'' = Inr False"
    by blast
  from b validatePassword_never_raises
      [where compare = sampleCompare and s = sampleUsers and userId = "JString ''2''"
         and pw = "''secret''"]
  have r2: "validatePassword sampleCompare sampleUsers (JString ''2'') ''secret'' = Inr False"
    by blast
  from c validatePassword_never_raises
      [where compare = sampleCompare and s = sampleUsers and userId = "JNumber 1"
         and pw = "''secret''"]
  have r3: "validatePassword sampleCompare sampleUsers (JNumber 1) ''secret'' = Inr True"
    by blast
  from c d validatePassword_never_raises
      [where compare = sampleCompare and s = sampleUsers and userId = "JNumber 1"
         and pw = "''guess''"]
  have r4: "validatePassword sampleCompare sampleUsers (JNumber 1) ''guess'' = Inr False"
    by blast
  from a b c d r1 r2 r3 r4 show ?thesis by blast
qed

text \<open>
  Claim C9. When the event id is already in the list \<open>registeredEvents\<close> of the user,
  \<open>addRegisteredEvent\<close> returns \<open>true\<close> and leaves the whole store as it was. Calling it
  twice in succession with the same arguments leaves the store that calling it once
  leaves, whether or not the write of the first call succeeds.
\<close>

theorem addRegisteredEvent_idempotent:
  "(\<forall>u. User_findById s userId = Some u \<and> eventId \<in> set (registeredEvents u) \<longrightarrow>
        addRegisteredEvent userId eventId now s = (Inr True, s)) \<and>
   snd (addRegisteredEvent userId eventId now'
          (snd (addRegisteredEvent userId eventId now s)))
     = snd (addRegisteredEvent userId eventId now s)"
proof (intro conjI allI impI)
  fix u assume "User_findById s userId = Some u \<and> eventId \<in> set (registeredEvents u)"
  then show "addRegisteredEvent userId eventId now s = (Inr True, s)"
    by (simp add: addRegisteredEvent_cases)
next
  show "snd (addRegisteredEvent userId eventId now'
          (snd (addRegisteredEvent userId eventId now s)))
     = snd (addRegisteredEvent userId eventId now s)"
  proof (cases "User_findById s userId")
    case None
    then show ?thesis by (simp add: addRegisteredEvent_cases)
  next
    case (Some u)
    show ?thesis
    proof (cases "eventId \<in> set (registeredEvents u)")
      case True
      with Some show ?thesis by (simp add: addRegisteredEvent_cases)
    next
      case False
      define u' where "u' = u\<lparr>registeredEvents := registeredEvents u @ [eventId],
                         user_updatedAt := now\<rparr>"
      define s1 where "s1 = snd (addRegisteredEvent userId eventId now s)"
      from User_findById_index [OF Some] have h: "hasUserId userId u" by simp
      then have h': "hasUserId userId u'" by (simp add: u'_def hasUserId_def)
      have ev: "users s1 = (users s)[nat (findIndex (hasUserId userId) (users s)) := u']"
        using Some False by (simp add: s1_def addRegisteredEvent_cases Let_def u'_def)
      from User_findById_update [OF Some h' ev] have f1: "User_findById s1 userId = Some u'"
        by simp
      have "eventId \<in> set (registeredEvents u')" by (simp add: u'_def)
      with f1 have "addRegisteredEvent userId eventId now' s1 = (Inr True, s1)"
        by (simp add: addRegisteredEvent_cases)
      then show ?thesis by (simp add: s1_def)
    qed
  qed
qed

theorem addRegisteredEvent_idempotent_witness:
  "User_findById sampleUsers (JNumber 1) = Some (sampleUser 1 ''$secret'' [JString ''3'']) \<and>
   JString ''3'' \<in> set (registeredEvents (sampleUser 1 ''$secret'' [JString ''3''])) \<and>
   addRegisteredEvent (JNumber 1) (JString ''3'') ''t'' sampleUsers = (Inr True, sampleUsers) \<and>
   map registeredEvents (users (snd (addRegisteredEvent (JNumber 1) (JString ''4'') ''t'' sampleUsers)))
     = [[JString ''3'', JString ''4''], []] \<and>
   snd (addRegisteredEvent (JNumber 1) (JString ''4'') ''u''
          (snd (addRegisteredEvent (JNumber 1) (JString ''4'') ''t'' sampleUsers)))
     = snd (addRegisteredEvent (JNumber 1) (JString ''4'') ''t'' sampleUsers)"
proof -
  have a: "User_findById sampleUsers (JNumber 1) = Some (sampleUser 1 ''$secret'' [JString ''3'']) \<and>
      JString ''3'' \<in> set (registeredEvents (sampleUser 1 ''$secret'' [JString ''3'']))"
    by code_simp
  have b: "map registeredEvents
      (users (snd (addRegisteredEvent (JNumber 1) (JString ''4'') ''t'' sampleUsers)))
     = [[JString ''3'', JString ''4''], []]"
    by code_simp
  from a addRegisteredEvent_idempotent
      [where s = sampleUsers and userId = "JNumber 1" and eventId = "JString ''3''"
         and now = "''t''" and now' = "''u''"]
  have r1: "addRegisteredEvent (JNumber 1) (JString ''3'') ''t'' sampleUsers = (Inr True, sampleUsers)"
    by blast
  from addRegisteredEvent_idempotent
      [where s = sampleUsers and userId = "JNumber 1" and eventId = "JString ''4''"
         and now = "''t''" and now' = "''u''"]
  have r2: "snd (addRegisteredEvent (JNumber 1) (JString ''4'') ''u''
          (snd (addRegisteredEvent (JNumber 1) (JString ''4'') ''t'' sampleUsers)))
     = snd (addRegisteredEvent (JNumber 1) (JString ''4'') ''t'' sampleUsers)"
    by blast
  from a b r1 r2 show ?thesis by blast
qed

text \<open>
  Claim C10. When \<open>registerUser\<close>, \<open>unregisterUser\<close>, \<open>update\<close> or \<open>delete\<close> of the event
  store throws a \<open>NotFound\<close> or a \<open>Conflict\<close> error, the store after the call is the store
  before it: every check that can throw one of them comes before the first mutation.
\<close>

theorem failures_leave_store_unchanged:
  "(\<forall>e. fst (registerUser eventId userId now s) = Inl e \<and> (isNotFound e \<or> isConflict e)
        \<longrightarrow> snd (registerUser eventId userId now s) = s) \<and>
   (\<forall>e. fst (unregisterUser eventId userId now s) = Inl e \<and> (isNotFound e \<or> isConflict e)
        \<longrightarrow> snd (unregisterUser eventId userId now s) = s) \<and>
   (\<forall>e. fst (Event_update i u now s) = Inl e \<and> (isNotFound e \<or> isConflict e)
        \<longrightarrow> snd (Event_update i u now s) = s) \<and>
   (\<forall>e. fst (Event_delete i s) = Inl e \<and> (isNotFound e \<or> isConflict e)
        \<longrightarrow> snd (Event_delete i s) = s)"
proof (intro conjI allI impI)
  fix e assume "fst (registerUser eventId userId now s) = Inl e \<and> (isNotFound e \<or> isConflict e)"
  then show "snd (registerUser eventId userId now s) = s"
    unfolding registerUser_cases
    by (auto simp: Let_def isNotFound_def isConflict_def split: option.splits if_splits)
next
  fix e assume "fst (unregisterUser eventId userId now s) = Inl e \<and> (isNotFound e \<or> isConflict e)"
  then show "snd (unregisterUser eventId userId now s) = s"
    unfolding unregisterUser_cases
    by (auto simp: Let_def isNotFound_def isConflict_def split: option.splits if_splits)
next
  fix e assume "fst (Event_update i u now s) = Inl e \<and> (isNotFound e \<or> isConflict e)"
  then show "snd (Event_update i u now s) = s"
    unfolding Event_update_cases
    by (auto simp: Let_def isNotFound_def isConflict_def split: option.splits if_splits)
next
  fix e assume "fst (Event_delete i s) = Inl e \<and> (isNotFound e \<or> isConflict e)"
  then show "snd (Event_delete i s) = s"
    unfolding Event_delete_cases
    by (auto simp: Let_def isNotFound_def isConflict_def split: option.splits if_splits)
qed

theorem failures_leave_store_unchanged_witness:
  "fst (registerUser (JString ''1'') (JNumber 8) ''t'' fullStore) = Inl (Error ''Event is full'') \<and>
   isConflict (Error ''Event is full'') \<and>
   snd (registerUser (JString ''1'') (JNumber 8) ''t'' fullStore) = fullStore \<and>
   fst (unregisterUser (JString ''1'') (JNumber 9) ''t'' fullStore)
     = Inl (Error ''User not registered for this event'') \<and>
   isConflict (Error ''User not registered for this event'') \<and>
   snd (unregisterUser (JString ''1'') (JNumber 9) ''t'' fullStore) = fullStore \<and>
   fst (Event_update (JString ''5'') noUpdate ''t'' fullStore) = Inl (Error ''Event not found'') \<and>
   isNotFound (Error ''Event not found'') \<and>
   snd (Event_update (JString ''5'') noUpdate ''t'' fullStore) = fullStore \<and>
   fst (Event_delete (JString ''x'') fullStore) = Inl (Error ''Event not found'') \<and>
   snd (Event_delete (JString ''x'') fullStore) = fullStore"
proof -
  have a: "fst (registerUser (JString ''1'') (JNumber 8) ''t'' fullStore)
      = Inl (Error ''Event is full'') \<and> isConflict (Error ''Event is full'')"
    by code_simp
  have b: "fst (unregisterUser (JString ''1'') (JNumber 9) ''t'' fullStore)
      = Inl (Error ''User not registered for this event'') \<and>
      isConflict (Error ''User not registered for this event'')"
    by code_simp
  have c: "fst (Event_update (JString ''5'') noUpdate ''t'' fullStore)
      = Inl (Error ''Event not found'') \<and> isNotFound (Error ''Event not found'')"
    by code_simp
  have d: "fst (Event_delete (JString ''x'') fullStore) = Inl (Error ''Event not found'')"
    by code_simp
  note th = failures_leave_store_unchanged
         [where s = fullStore and eventId = "JString ''1''" and now = "''t''"
            and u = noUpdate]
  from a th [where userId = "JNumber 8" and i = "JString ''5''"]
  have r1: "snd (registerUser (JString ''1'') (JNumber 8) ''t'' fullStore) = fullStore"
    by blast
  from b th [where userId = "JNumber 9" and i = "JString ''5''"]
  have r2: "snd (unregisterUser (JString ''1'') (JNumber 9) ''t'' fullStore) = fullStore"
    by blast
  from c th [where userId = "JNumber 9" and i = "JString ''5''"]
  have r3: "snd (Event_update (JString ''5'') noUpdate ''t'' fullStore) = fullStore"
    by blast
  from c d th [where userId = "JNumber 9" and i = "JString ''x''"]
  have r4: "snd (Event_delete (JString ''x'') fullStore) = fullStore"
    by blast
  from a b c d r1 r2 r3 r4 show ?thesis by blast
qed

end
